theory Spec2Isabelle
  imports Main "HOL-Library.Char_ord" "HOL-Library.Sublist"
begin

section \<open>Text primitives of the Python runtime\<close>

text \<open>
  Log lines are Python \<open>str\<close> values. They are modelled as \<open>string\<close> (a list of
  characters), every character standing for one ASCII code point; the character
  predicates below are the ASCII part of Python's Unicode predicates (on code points
  above 127 Python knows further whitespace, letters and case pairs, which are not
  modelled).
\<close>

definition is_space :: "char \<Rightarrow> bool" where
  \<comment> \<open>\<open>str.isspace\<close> and the class \<open>\s\<close>: code points 9..13, 28..31 and 32\<close>
  "is_space c = (let n = (of_char c :: nat) in (9 \<le> n \<and> n \<le> 13) \<or> (28 \<le> n \<and> n \<le> 32))"

definition is_digit :: "char \<Rightarrow> bool" where
  "is_digit c = (CHR ''0'' \<le> c \<and> c \<le> CHR ''9'')"

definition is_upper :: "char \<Rightarrow> bool" where
  "is_upper c = (CHR ''A'' \<le> c \<and> c \<le> CHR ''Z'')"

definition is_lower :: "char \<Rightarrow> bool" where
  "is_lower c = (CHR ''a'' \<le> c \<and> c \<le> CHR ''z'')"

definition is_word :: "char \<Rightarrow> bool" where
  \<comment> \<open>the class \<open>\w\<close>: letters, digits and the underscore\<close>
  "is_word c = (is_upper c \<or> is_lower c \<or> is_digit c \<or> c = CHR ''_'')"

definition lower_char :: "char \<Rightarrow> char" where
  "lower_char c = (if is_upper c then char_of (of_char c + (32::nat)) else c)"

definition py_lower :: "string \<Rightarrow> string" where
  \<comment> \<open>\<open>str.lower()\<close>\<close>
  "py_lower s = map lower_char s"

definition py_strip :: "string \<Rightarrow> string" where
  \<comment> \<open>\<open>str.strip()\<close>: leading and trailing whitespace removed\<close>
  "py_strip s = rev (dropWhile is_space (rev (dropWhile is_space s)))"

fun py_in :: "string \<Rightarrow> string \<Rightarrow> bool" where
  \<comment> \<open>\<open>sub in s\<close> on strings: \<open>sub\<close> occurs in \<open>s\<close> as a contiguous substring\<close>
  "py_in sub [] = (sub = [])"
| "py_in sub (c # cs) = (prefix sub (c # cs) \<or> py_in sub cs)"

fun split_from :: "string \<Rightarrow> nat \<Rightarrow> string \<Rightarrow> string \<Rightarrow> string list" where
  \<comment> \<open>the scan of \<open>str.split(sep, maxsplit)\<close> for a non-empty \<open>sep\<close>: \<open>cur\<close> is the
      part being collected, the number is the splits still allowed\<close>
  "split_from sep 0 cur s = [cur @ s]"
| "split_from sep (Suc n) cur [] = [cur]"
| "split_from sep (Suc n) cur (c # cs) =
     (if prefix sep (c # cs) then cur # split_from sep n [] (drop (length sep) (c # cs))
      else split_from sep (Suc n) (cur @ [c]) cs)"

definition py_split :: "string \<Rightarrow> nat \<Rightarrow> string \<Rightarrow> string list" where
  \<comment> \<open>\<open>s.split(sep, maxsplit)\<close>\<close>
  "py_split sep maxsplit s = split_from sep maxsplit [] s"

fun str_nat :: "nat \<Rightarrow> string" where
  \<comment> \<open>\<open>str(n)\<close> of a non-negative integer: its decimal digits\<close>
  "str_nat n =
     (if n < 10 then [char_of (48 + n)] else str_nat (n div 10) @ [char_of (48 + n mod 10)])"

declare str_nat.simps [simp del]

section \<open>Regular expressions of the pattern registry\<close>

text \<open>
  The patterns are compiled with \<open>re.I\<close> and applied with \<open>pattern.search\<close>. The
  fragment of the regular-expression language they use is embedded as a datatype:
  character classes, greedy repetition of a class, sequence, alternation, a greedy
  optional part and numbered capture groups (numbered from 0 here, so that group
  \<open>i\<close> is \<open>match.groups()[i]\<close>).
\<close>

datatype cls =
    Lit char        \<comment> \<open>a literal character, compared case-insensitively\<close>
  | Digit           \<comment> \<open>\<open>\d\<close>\<close>
  | Space           \<comment> \<open>\<open>\s\<close>\<close>
  | Word            \<comment> \<open>\<open>\w\<close>\<close>
  | AnyChar         \<comment> \<open>\<open>.\<close>: any character except the newline\<close>
  | NotSpace        \<comment> \<open>\<open>[^\s]\<close>\<close>
  | NotLit char     \<comment> \<open>\<open>[^c]\<close> for a character that is not a letter\<close>
  | DigitDot        \<comment> \<open>\<open>[\d.]\<close>\<close>

fun cls_match :: "cls \<Rightarrow> char \<Rightarrow> bool" where
  "cls_match (Lit c) x = (lower_char x = lower_char c)"
| "cls_match Digit x = is_digit x"
| "cls_match Space x = is_space x"
| "cls_match Word x = is_word x"
| "cls_match AnyChar x = (x \<noteq> CHR 0x0A)"
| "cls_match NotSpace x = (\<not> is_space x)"
| "cls_match (NotLit c) x = (x \<noteq> c)"
| "cls_match DigitDot x = (is_digit x \<or> x = CHR ''.'')"

datatype rx =
    Eps
  | Chr cls
  | Star cls        \<comment> \<open>\<open>k*\<close>, greedy\<close>
  | Plus cls        \<comment> \<open>\<open>k+\<close>, greedy\<close>
  | Seq rx rx
  | Alt rx rx       \<comment> \<open>\<open>a|b\<close>, the left alternative first\<close>
  | Opt rx          \<comment> \<open>\<open>(?:a)?\<close>, greedy\<close>
  | Grp nat rx      \<comment> \<open>a capture group\<close>

type_synonym caps = "string option list"

fun greedy :: "cls \<Rightarrow> string \<Rightarrow> string list" where
  \<comment> \<open>what remains after a greedy repetition of a class, the longest repetition first\<close>
  "greedy k [] = [[]]"
| "greedy k (x # xs) = (if cls_match k x then greedy k xs @ [x # xs] else [x # xs])"

fun mt :: "rx \<Rightarrow> string \<times> caps \<Rightarrow> (string \<times> caps) list" where
  \<comment> \<open>the backtracking matcher: from the rest of the subject and the groups captured
      so far, every way of matching the expression at this position (the rest after it
      and the groups), in the order in which backtracking tries them\<close>
  "mt Eps st = [st]"
| "mt (Chr k) (s, c) =
     (case s of [] \<Rightarrow> [] | x # xs \<Rightarrow> if cls_match k x then [(xs, c)] else [])"
| "mt (Star k) (s, c) = map (\<lambda>t. (t, c)) (greedy k s)"
| "mt (Plus k) (s, c) =
     (case s of [] \<Rightarrow> []
      | x # xs \<Rightarrow> if cls_match k x then map (\<lambda>t. (t, c)) (greedy k xs) else [])"
| "mt (Seq a b) st = concat (map (mt b) (mt a st))"
| "mt (Alt a b) st = mt a st @ mt b st"
| "mt (Opt a) st = mt a st @ [st]"
| "mt (Grp i a) (s, c) =
     map (\<lambda>(t, d). (t, d[i := Some (take (length s - length t) s)])) (mt a (s, c))"

fun ngroups :: "rx \<Rightarrow> nat" where
  \<comment> \<open>the number of capture groups of a pattern, \<open>len(match.groups())\<close>\<close>
  "ngroups (Seq a b) = ngroups a + ngroups b"
| "ngroups (Alt a b) = ngroups a + ngroups b"
| "ngroups (Opt a) = ngroups a"
| "ngroups (Grp i a) = Suc (ngroups a)"
| "ngroups r = 0"

definition match_at :: "rx \<Rightarrow> string \<Rightarrow> caps option" where
  \<comment> \<open>the first way of matching at this position, if any; a group that took no part
      is \<open>None\<close>\<close>
  "match_at p s =
     (case mt p (s, replicate (ngroups p) None) of
        [] \<Rightarrow> None
      | (t, d) # _ \<Rightarrow> Some d)"

fun search :: "rx \<Rightarrow> string \<Rightarrow> caps option" where
  \<comment> \<open>\<open>pattern.search(s)\<close>: the match at the leftmost position that has one; the result
      is the tuple \<open>match.groups()\<close>\<close>
  "search p [] = match_at p []"
| "search p (x # xs) =
     (case match_at p (x # xs) of Some d \<Rightarrow> Some d | None \<Rightarrow> search p xs)"

definition lit :: "string \<Rightarrow> rx" where
  \<comment> \<open>a run of literal characters\<close>
  "lit w = foldr (\<lambda>c r. Seq (Chr (Lit c)) r) w Eps"

definition cat :: "rx list \<Rightarrow> rx" where
  \<comment> \<open>the sequence of the parts of a pattern\<close>
  "cat rs = foldr Seq rs Eps"


section \<open>Data model\<close>

datatype SecuritySeverity = CRITICAL | HIGH | MEDIUM | LOW

datatype SecurityRule = EGRESS | BRUTE_FORCE | SUDO | OOM_KILL | OTHER

fun severity_value :: "SecuritySeverity \<Rightarrow> string" where
  "severity_value CRITICAL = ''critical''"
| "severity_value HIGH = ''high''"
| "severity_value MEDIUM = ''medium''"
| "severity_value LOW = ''low''"

fun rule_value :: "SecurityRule \<Rightarrow> string" where
  "rule_value EGRESS = ''egress''"
| "rule_value BRUTE_FORCE = ''brute_force''"
| "rule_value SUDO = ''sudo''"
| "rule_value OOM_KILL = ''oom_kill''"
| "rule_value OTHER = ''other''"

text \<open>
  A dictionary is an association list in insertion order with distinct keys. The
  values of the metadata are captured groups: a string, or \<open>None\<close> for a group that
  took no part in the match. An event built without metadata (the field's default
  \<open>None\<close>) is represented by the empty dictionary: both are false in the analyzer's
  tests \<open>event.metadata\<close>, its only use of the field.
\<close>

type_synonym metadata = "(string \<times> string option) list"

record 't SecurityEvent =
  vm_name :: string
  timestamp :: 't
  source :: string
  message :: string
  severity :: SecuritySeverity
  rule :: SecurityRule
  metadata :: metadata

datatype py_error = AttributeError

section \<open>The pattern registry\<close>

definition EGRESS_1 :: rx where
  "EGRESS_1 = cat [lit ''kernel:'', Star AnyChar, lit ''egress'', Star Space, lit ''('',
     Plus Digit, lit '')'', Star Space, lit ''pid'', Plus Space, Grp 0 (Plus Digit),
     Plus Space, lit ''read'', Plus Space,
     Grp 1 (Alt (Plus NotSpace) (cat [lit ''('', Plus (NotLit CHR '')''), lit '')''])),
     Plus Space, lit ''write'', Plus Space, Grp 2 (Star NotSpace),
     Plus Space, lit ''uid'', Plus Space, Grp 3 (Plus Digit),
     Plus Space, lit ''gid'', Plus Space, Grp 4 (Plus Digit)]"

definition BRUTE_1 :: rx where
  "BRUTE_1 = cat [lit ''sshd['', Plus Digit, lit '']:'', Star Space, lit ''Failed'',
     Plus Space, lit ''password'', Plus Space, lit ''for'', Plus Space,
     Opt (cat [lit ''invalid'', Plus Space, lit ''user'', Plus Space]),
     Grp 0 (Plus Word), Plus Space, lit ''from'', Plus Space, Grp 1 (Plus DigitDot)]"

definition BRUTE_2 :: rx where
  "BRUTE_2 = cat [lit ''sshd['', Plus Digit, lit '']:'', Star Space, lit ''Invalid'',
     Plus Space, lit ''user'', Plus Space, Grp 0 (Plus Word), Plus Space, lit ''from'',
     Plus Space, Grp 1 (Plus DigitDot)]"

definition BRUTE_3 :: rx where
  "BRUTE_3 = cat [lit ''sudo:'', Star AnyChar, lit ''user'', Plus Space, lit ''NOT'',
     Plus Space, lit ''in'', Plus Space, lit ''sudoers'', Star AnyChar, lit ''USER='',
     Grp 0 (Plus Word), Star AnyChar, lit ''COMMAND='', Grp 1 (Plus AnyChar)]"

definition SUDO_1 :: rx where
  "SUDO_1 = cat [lit ''sudo:'', Star Space, Grp 0 (Plus Word), Star Space, lit '':'',
     Star AnyChar, lit ''TTY='', Star AnyChar, lit ''USER='', Grp 1 (Plus Word),
     Plus Space, lit ''COMMAND='', Grp 2 (Plus AnyChar)]"

definition SUDO_2 :: rx where
  "SUDO_2 = cat [lit ''sudo:'', Star Space, lit ''pam_unix(sudo:session):'', Star Space,
     lit ''session'', Plus Space, Grp 0 (Alt (lit ''opened'') (lit ''closed'')),
     Plus Space, lit ''for'', Plus Space, lit ''user'', Plus Space, Grp 1 (Plus Word)]"

definition SUDO_3 :: rx where
  "SUDO_3 = cat [lit ''su:'', Star Space, lit ''pam_unix(su:session):'', Star Space,
     lit ''session'', Plus Space, lit ''opened'', Plus Space, lit ''for'', Plus Space,
     lit ''user'', Plus Space, Grp 0 (Plus Word), Star AnyChar, lit ''by'', Plus Space,
     Grp 1 (Plus Word)]"

definition OOM_1 :: rx where
  "OOM_1 = cat [lit ''kernel:'', Star AnyChar, lit ''Out'', Plus Space, lit ''of'',
     Plus Space, lit ''memory:'', Star Space, lit ''Kill'', Plus Space, lit ''process'',
     Plus Space, Grp 0 (Plus Digit), Star Space, lit ''('',
     Grp 1 (Plus (NotLit CHR '')'')), lit '')'']"

definition OOM_2 :: rx where
  "OOM_2 = cat [lit ''kernel:'', Star AnyChar, lit ''oom-kill:'', Star AnyChar,
     lit ''killed'', Plus Space, lit ''process'', Plus Space, Grp 0 (Plus Digit)]"

definition patterns :: "(SecurityRule \<times> rx list) list" where
  \<comment> \<open>\<open>self.patterns\<close>: a dictionary, iterated in insertion order\<close>
  "patterns =
     [(EGRESS, [EGRESS_1]),
      (BRUTE_FORCE, [BRUTE_1, BRUTE_2, BRUTE_3]),
      (SUDO, [SUDO_1, SUDO_2, SUDO_3]),
      (OOM_KILL, [OOM_1, OOM_2])]"

section \<open>Classification of one line\<close>

definition sensitive_exts :: "string list" where
  "sensitive_exts = [''.csv'', ''.zip'', ''.sql'', ''.key'', ''.pem'']"

definition get_severity :: "SecurityRule \<Rightarrow> caps \<Rightarrow> string \<Rightarrow> py_error + SecuritySeverity" where
  \<comment> \<open>\<open>_get_severity\<close>; the match is given by its groups. \<open>match.group(2)\<close> of a group
      that took no part is \<open>None\<close>, and \<open>None.lower()\<close> raises\<close>
  "get_severity r groups msg =
     (if r = EGRESS then
        (case (if length groups > 1 then groups ! 1 else Some []) of
           None \<Rightarrow> Inl AttributeError
         | Some read_file \<Rightarrow>
             if list_ex (\<lambda>ext. py_in ext (py_lower read_file)) sensitive_exts
             then Inr CRITICAL else Inr HIGH)
      else if r = BRUTE_FORCE then Inr HIGH
      else if r = SUDO then
        (if py_in ''USER=root'' msg \<or> py_in ''session opened for user root'' msg
         then Inr HIGH else Inr MEDIUM)
      else if r = OOM_KILL then Inr MEDIUM
      else Inr LOW)"

definition extract_metadata :: "SecurityRule \<Rightarrow> caps \<Rightarrow> string \<Rightarrow> metadata" where
  \<comment> \<open>\<open>_extract_metadata\<close>\<close>
  "extract_metadata r groups msg =
     (if r = EGRESS then
        (if length groups \<ge> 5 then
           [(''pid'', groups ! 0), (''read_file'', groups ! 1), (''write_dest'', groups ! 2),
            (''uid'', groups ! 3), (''gid'', groups ! 4)]
         else [])
      else if r = BRUTE_FORCE then
        (if length groups \<ge> 2 then
           [(''username'', groups ! 0), (''source_ip'', groups ! 1)]
         else [])
      else if r = SUDO then
        (if length groups \<ge> 1 then
           (''user'', groups ! 0) # (if length groups \<ge> 3 then [(''command'', groups ! 2)] else [])
         else [])
      else [])"

fun first_pattern :: "rx list \<Rightarrow> string \<Rightarrow> caps option" where
  \<comment> \<open>the inner loop: the match of the first pattern of a rule that matches\<close>
  "first_pattern [] msg = None"
| "first_pattern (p # ps) msg =
     (case search p msg of Some m \<Rightarrow> Some m | None \<Rightarrow> first_pattern ps msg)"

fun first_rule :: "(SecurityRule \<times> rx list) list \<Rightarrow> string \<Rightarrow> (SecurityRule \<times> caps) option" where
  \<comment> \<open>the outer loop over the rules of the registry\<close>
  "first_rule [] msg = None"
| "first_rule ((r, ps) # rest) msg =
     (case first_pattern ps msg of Some m \<Rightarrow> Some (r, m) | None \<Rightarrow> first_rule rest msg)"

definition parse_log_line ::
  "(string \<Rightarrow> 't option) \<Rightarrow> 't \<Rightarrow> string \<Rightarrow> py_error + 't SecurityEvent option" where
  \<comment> \<open>\<open>parse_log_line\<close>. \<open>strptime s\<close> is \<open>datetime.strptime(s, '%Y-%m-%d %H:%M:%S')\<close>,
      \<open>None\<close> where it raises \<open>ValueError\<close>; \<open>now\<close> is what \<open>datetime.now()\<close> would return\<close>
  "parse_log_line strptime now line =
     (if py_strip line = [] then Inr None
      else
        (case py_split '' | '' 3 (py_strip line) of
           [timestamp_str, vm, src, original_message] \<Rightarrow>
             (let ts = (case strptime timestamp_str of Some t \<Rightarrow> t | None \<Rightarrow> now) in
              case first_rule patterns original_message of
                None \<Rightarrow> Inr None
              | Some (r, m) \<Rightarrow>
                  (case get_severity r m original_message of
                     Inl e \<Rightarrow> Inl e
                   | Inr sev \<Rightarrow>
                       Inr (Some \<lparr>vm_name = vm, timestamp = ts, source = src,
                                  message = py_strip line, severity = sev, rule = r,
                                  metadata = extract_metadata r m original_message\<rparr>)))
         | _ \<Rightarrow> Inr None))"

section \<open>Threat analysis of a batch\<close>

text \<open>
  The counters are \<open>defaultdict(int)\<close> dictionaries: association lists in the order in
  which the keys were first inserted.
\<close>

type_synonym counter = "(string \<times> nat) list"

fun bump :: "string \<Rightarrow> counter \<Rightarrow> counter" where
  \<comment> \<open>\<open>d[k] += 1\<close> on a \<open>defaultdict(int)\<close>\<close>
  "bump k [] = [(k, 1)]"
| "bump k ((k', n) # rest) = (if k = k' then (k', Suc n) # rest else (k', n) # bump k rest)"

definition dict_get :: "metadata \<Rightarrow> string \<Rightarrow> string option" where
  \<comment> \<open>\<open>d.get(k)\<close>: \<open>None\<close> for a missing key (and for a stored \<open>None\<close>)\<close>
  "dict_get d k = (case map_of d k of None \<Rightarrow> None | Some v \<Rightarrow> v)"

record tally =
  severity_breakdown :: counter
  rule_breakdown :: counter
  ip_failures :: counter
  user_sudo_attempts :: counter
  egress_files :: "string list"

definition tally0 :: tally where
  "tally0 = \<lparr>severity_breakdown = [], rule_breakdown = [], ip_failures = [],
              user_sudo_attempts = [], egress_files = []\<rparr>"

definition track_brute :: "'t SecurityEvent \<Rightarrow> tally \<Rightarrow> tally" where
  "track_brute event st =
     (if rule event = BRUTE_FORCE \<and> metadata event \<noteq> [] then
        (case dict_get (metadata event) ''source_ip'' of
           None \<Rightarrow> st
         | Some ip \<Rightarrow> if ip \<noteq> [] then st\<lparr>ip_failures := bump ip (ip_failures st)\<rparr> else st)
      else st)"

definition track_sudo :: "'t SecurityEvent \<Rightarrow> tally \<Rightarrow> tally" where
  "track_sudo event st =
     (if rule event = SUDO \<and> metadata event \<noteq> [] then
        (case dict_get (metadata event) ''user'' of
           None \<Rightarrow> st
         | Some user \<Rightarrow>
             if user \<noteq> [] then st\<lparr>user_sudo_attempts := bump user (user_sudo_attempts st)\<rparr>
             else st)
      else st)"

definition track_egress :: "'t SecurityEvent \<Rightarrow> tally \<Rightarrow> tally" where
  "track_egress event st =
     (if rule event = EGRESS \<and> metadata event \<noteq> [] then
        (case dict_get (metadata event) ''read_file'' of
           None \<Rightarrow> st
         | Some read_file \<Rightarrow>
             if read_file \<noteq> [] \<and> read_file \<noteq> ''(null)''
             then st\<lparr>egress_files := egress_files st @ [read_file]\<rparr> else st)
      else st)"

definition analyze_step :: "tally \<Rightarrow> 't SecurityEvent \<Rightarrow> tally" where
  \<comment> \<open>the body of the loop over the events\<close>
  "analyze_step st event =
     track_egress event (track_sudo event (track_brute event
       (st\<lparr>severity_breakdown := bump (severity_value (severity event)) (severity_breakdown st),
           rule_breakdown := bump (rule_value (rule event)) (rule_breakdown st)\<rparr>)))"

definition tally_events :: "'t SecurityEvent list \<Rightarrow> tally" where
  "tally_events events = foldl analyze_step tally0 events"

definition brute_line :: "string \<Rightarrow> nat \<Rightarrow> string" where
  "brute_line ip count' =
     ''Brute force attack from '' @ ip @ '': '' @ str_nat count' @ '' failed attempts''"

definition sudo_line :: "string \<Rightarrow> nat \<Rightarrow> string" where
  "sudo_line user count' =
     ''Excessive sudo usage by '' @ user @ '': '' @ str_nat count' @ '' attempts''"

definition egress_line :: "nat \<Rightarrow> string" where
  "egress_line n = ''Data exfiltration detected: '' @ str_nat n @ '' unique files accessed''"

definition REC_CRITICAL :: string where
  "REC_CRITICAL = ''Immediate investigation required for critical events''"

definition REC_RATE_LIMIT :: string where
  "REC_RATE_LIMIT = ''Consider implementing IP-based rate limiting''"

definition REC_DLP :: string where
  "REC_DLP = ''Review file access permissions and implement DLP controls''"

definition counter_get :: "counter \<Rightarrow> string \<Rightarrow> nat" where
  \<comment> \<open>reading \<open>d[k]\<close> of a \<open>defaultdict(int)\<close>: 0 for a missing key\<close>
  "counter_get d k = (case map_of d k of None \<Rightarrow> 0 | Some n \<Rightarrow> n)"

definition counter_touch :: "counter \<Rightarrow> string \<Rightarrow> counter" where
  \<comment> \<open>the reading inserts a missing key with the value 0\<close>
  "counter_touch d k = (case map_of d k of None \<Rightarrow> d @ [(k, 0)] | Some n \<Rightarrow> d)"

record analysis =
  total_events :: nat
  a_severity_breakdown :: counter
  a_rule_breakdown :: counter
  threats :: "string list"
  recommendations :: "string list"

definition analyze_events :: "'t SecurityEvent list \<Rightarrow> analysis" where
  \<comment> \<open>\<open>analyze_events\<close>\<close>
  "analyze_events events =
     (let st = tally_events events in
      \<lparr>total_events = length events,
       a_severity_breakdown = counter_touch (severity_breakdown st) ''critical'',
       a_rule_breakdown = rule_breakdown st,
       threats =
         concat (map (\<lambda>(ip, n). if n > 5 then [brute_line ip n] else []) (ip_failures st)) @
         concat (map (\<lambda>(user, n). if n > 10 then [sudo_line user n] else [])
           (user_sudo_attempts st)) @
         (if egress_files st \<noteq> [] then [egress_line (length (remdups (egress_files st)))]
          else []),
       recommendations =
         (if counter_get (severity_breakdown st) ''critical'' > 0 then [REC_CRITICAL] else []) @
         (if length (ip_failures st) > 3 then [REC_RATE_LIMIT] else []) @
         (if egress_files st \<noteq> [] then [REC_DLP] else [])\<rparr>)"

section \<open>Notions of the specification\<close>

definition rule_order :: "(SecurityRule \<times> rx) list" where
  \<comment> \<open>the patterns of the registry in the order of evaluation: rule by rule, and within
      a rule in the order of declaration\<close>
  "rule_order = concat (map (\<lambda>(r, ps). map (Pair r) ps) patterns)"

fun first_match :: "(SecurityRule \<times> rx) list \<Rightarrow> string \<Rightarrow> (SecurityRule \<times> caps) option" where
  \<comment> \<open>in the words of the specification: the first pattern of the list that matches
      the message body, with its rule\<close>
  "first_match [] body = None"
| "first_match ((r, p) # rest) body =
     (case search p body of Some m \<Rightarrow> Some (r, m) | None \<Rightarrow> first_match rest body)"

definition contains_sensitive_ext :: "string \<Rightarrow> bool" where
  \<comment> \<open>in the words of the specification: the token contains, case-insensitively, one
      of the substrings \<open>.csv\<close>, \<open>.zip\<close>, \<open>.sql\<close>, \<open>.key\<close>, \<open>.pem\<close>\<close>
  "contains_sensitive_ext g =
     (\<exists>ext \<in> set [''.csv'', ''.zip'', ''.sql'', ''.key'', ''.pem''].
        \<exists>u v. map lower_char g = u @ ext @ v)"

definition counts_as_brute :: "'t SecurityEvent \<Rightarrow> string \<Rightarrow> bool" where
  \<comment> \<open>the event is a brute-force event whose metadata names this (non-empty) source IP\<close>
  "counts_as_brute e ip =
     (rule e = BRUTE_FORCE \<and> ip \<noteq> [] \<and> dict_get (metadata e) ''source_ip'' = Some ip)"

definition ip_count :: "'t SecurityEvent list \<Rightarrow> string \<Rightarrow> nat" where
  \<comment> \<open>the accumulated attempt count of a source IP in a batch, in the words of the
      specification: the number of brute-force events of the batch that name it\<close>
  "ip_count events ip = length (filter (\<lambda>e. counts_as_brute e ip) events)"

section \<open>Auxiliary functions of the proofs\<close>

fun grps :: "rx \<Rightarrow> nat set" where
  \<comment> \<open>the indices of the capture groups of an expression\<close>
  "grps (Seq a b) = grps a \<union> grps b"
| "grps (Alt a b) = grps a \<union> grps b"
| "grps (Opt a) = grps a"
| "grps (Grp i a) = insert i (grps a)"
| "grps r = {}"

definition nat_of_str :: "string \<Rightarrow> nat" where
  "nat_of_str s = foldl (\<lambda>a c. 10 * a + (of_char c - 48)) 0 s"

section \<open>Example inputs\<close>

definition example_strptime :: "string \<Rightarrow> int option" where
  \<comment> \<open>a timestamp parser for the examples: time is a number of seconds, and the one
      timestamp that the example lines carry is parsed\<close>
  "example_strptime s = (if s = ''2024-01-01 00:00:00'' then Some 1704067200 else None)"

definition line_ssh :: string where
  "line_ssh = ''2024-01-01 00:00:00 | u2-vm30000 | auth.log | sshd[123]: Failed password for invalid user root from 10.0.0.5''"

definition event_ssh :: "int SecurityEvent" where
  "event_ssh = \<lparr>vm_name = ''u2-vm30000'', timestamp = 1704067200, source = ''auth.log'',
     message = line_ssh, severity = HIGH, rule = BRUTE_FORCE,
     metadata = [(''username'', Some ''root''), (''source_ip'', Some ''10.0.0.5'')]\<rparr>"

definition line_body_with_delimiter :: string where
  "line_body_with_delimiter = ''2024-01-01 00:00:00 | vm1 | auth.log | sshd[7]: Invalid user bob from 10.1.2.3 | port 22 | ssh2''"

definition event_body_with_delimiter :: "int SecurityEvent" where
  "event_body_with_delimiter = \<lparr>vm_name = ''vm1'', timestamp = 1704067200, source = ''auth.log'',
     message = line_body_with_delimiter, severity = HIGH, rule = BRUTE_FORCE,
     metadata = [(''username'', Some ''bob''), (''source_ip'', Some ''10.1.2.3'')]\<rparr>"

definition line_ssh_newline :: string where
  "line_ssh_newline = line_ssh @ [CHR 0x0A]"

definition line_bad_timestamp :: string where
  "line_bad_timestamp = ''Jan  1 00:00:00 | vm1 | kern.log | kernel: Out of memory: Kill process 4242 (java) score 900''"

definition event_bad_timestamp :: "int \<Rightarrow> int SecurityEvent" where
  "event_bad_timestamp now = \<lparr>vm_name = ''vm1'', timestamp = now, source = ''kern.log'',
     message = line_bad_timestamp, severity = MEDIUM, rule = OOM_KILL, metadata = []\<rparr>"

definition batch_same_ip :: "nat \<Rightarrow> int SecurityEvent list" where
  "batch_same_ip k = replicate k event_ssh"

definition event_from_ip :: "string \<Rightarrow> int SecurityEvent" where
  "event_from_ip ip = event_ssh\<lparr>metadata := [(''username'', Some ''root''), (''source_ip'', Some ip)]\<rparr>"

definition batch_four_ips :: "int SecurityEvent list" where
  "batch_four_ips = map event_from_ip [''10.0.0.1'', ''10.0.0.2'', ''10.0.0.3'', ''10.0.0.4'']"

definition line_egress_sql :: string where
  "line_egress_sql = ''2024-01-01 00:00:00 | vm1 | kern.log | kernel: [12.5] egress (1) pid 4242 read /srv/db/dump.SQL write 10.9.8.7 uid 0 gid 0''"

definition event_egress_sql :: "int SecurityEvent" where
  "event_egress_sql = \<lparr>vm_name = ''vm1'', timestamp = 1704067200, source = ''kern.log'',
     message = line_egress_sql, severity = CRITICAL, rule = EGRESS,
     metadata = [(''pid'', Some ''4242''), (''read_file'', Some ''/srv/db/dump.SQL''),
       (''write_dest'', Some ''10.9.8.7''), (''uid'', Some ''0''), (''gid'', Some ''0'')]\<rparr>"

definition line_egress_txt :: string where
  "line_egress_txt = ''2024-01-01 00:00:00 | vm1 | kern.log | kernel: [12.5] egress (1) pid 4242 read /tmp/notes.txt write 10.9.8.7 uid 0 gid 0''"

definition event_egress_txt :: "int SecurityEvent" where
  "event_egress_txt = \<lparr>vm_name = ''vm1'', timestamp = 1704067200, source = ''kern.log'',
     message = line_egress_txt, severity = HIGH, rule = EGRESS,
     metadata = [(''pid'', Some ''4242''), (''read_file'', Some ''/tmp/notes.txt''),
       (''write_dest'', Some ''10.9.8.7''), (''uid'', Some ''0''), (''gid'', Some ''0'')]\<rparr>"

definition body_brute_sudo :: string where
  "body_brute_sudo = ''sshd[1]: Failed password for bob from 10.0.0.5 sudo: pam_unix(sudo:session): session opened for user bob''"

definition body_three_rules :: string where
  "body_three_rules = ''kernel: egress(1) pid 2 read /etc/a write /dev/b uid 0 gid 0 '' @ body_brute_sudo"

definition line_brute_sudo :: string where
  "line_brute_sudo = ''2024-01-01 00:00:00 | vm1 | auth.log | '' @ body_brute_sudo"

definition line_three_rules :: string where
  "line_three_rules = ''2024-01-01 00:00:00 | vm1 | auth.log | '' @ body_three_rules"

definition event_three_rules :: "int SecurityEvent" where
  "event_three_rules = \<lparr>vm_name = ''vm1'', timestamp = 1704067200, source = ''auth.log'',
     message = line_three_rules, severity = HIGH, rule = EGRESS,
     metadata = [(''pid'', Some ''2''), (''read_file'', Some ''/etc/a''),
       (''write_dest'', Some ''/dev/b''), (''uid'', Some ''0''), (''gid'', Some ''0'')]\<rparr>"

definition event_brute_sudo :: "int SecurityEvent" where
  "event_brute_sudo = \<lparr>vm_name = ''vm1'', timestamp = 1704067200, source = ''auth.log'',
     message = line_brute_sudo, severity = HIGH, rule = BRUTE_FORCE,
     metadata = [(''username'', Some ''bob''), (''source_ip'', Some ''10.0.0.5'')]\<rparr>"

definition line_pam_session :: string where
  "line_pam_session = ''2024-01-01 00:00:00 | vm1 | auth.log | sudo: pam_unix(sudo:session): session opened for user root by (uid=0)''"

definition event_pam_session :: "int SecurityEvent" where
  "event_pam_session = \<lparr>vm_name = ''vm1'', timestamp = 1704067200, source = ''auth.log'',
     message = line_pam_session, severity = HIGH, rule = SUDO,
     metadata = [(''user'', Some ''opened'')]\<rparr>"

definition line_pam_upper :: string where
  "line_pam_upper = ''2024-01-01 00:00:00 | vm1 | auth.log | sudo: pam_unix(sudo:session): session OPENED for user root''"

definition event_pam_upper :: "int SecurityEvent" where
  "event_pam_upper = \<lparr>vm_name = ''vm1'', timestamp = 1704067200, source = ''auth.log'',
     message = line_pam_upper, severity = MEDIUM, rule = SUDO,
     metadata = [(''user'', Some ''OPENED'')]\<rparr>"

definition body_sudo_and_pam :: string where
  "body_sudo_and_pam = ''sudo: bob : TTY=pts/0 USER=root COMMAND=/bin/ls ; sudo: pam_unix(sudo:session): session opened for user root''"

definition line_sudo_and_pam :: string where
  "line_sudo_and_pam = ''2024-01-01 00:00:00 | vm1 | auth.log | '' @ body_sudo_and_pam"

definition event_sudo_and_pam :: "int SecurityEvent" where
  "event_sudo_and_pam = \<lparr>vm_name = ''vm1'', timestamp = 1704067200, source = ''auth.log'',
     message = line_sudo_and_pam, severity = HIGH, rule = SUDO,
     metadata = [(''user'', Some ''bob''),
       (''command'', Some ''/bin/ls ; sudo: pam_unix(sudo:session): session opened for user root'')]\<rparr>"

definition line_not_in_sudoers :: string where
  "line_not_in_sudoers = ''2024-01-01 00:00:00 | vm1 | auth.log | sudo: bob : user NOT in sudoers ; TTY=pts/0 ; USER=root ; COMMAND=/bin/cat /etc/shadow''"

definition event_not_in_sudoers :: "int SecurityEvent" where
  "event_not_in_sudoers = \<lparr>vm_name = ''vm1'', timestamp = 1704067200, source = ''auth.log'',
     message = line_not_in_sudoers, severity = HIGH, rule = BRUTE_FORCE,
     metadata = [(''username'', Some ''root''), (''source_ip'', Some ''/bin/cat /etc/shadow'')]\<rparr>"

definition body_ssh_and_sudoers :: string where
  "body_ssh_and_sudoers = ''sshd[1]: Failed password for bob from 10.0.0.5 sudo: bob : user NOT in sudoers ; USER=root ; COMMAND=/bin/ls''"

definition line_ssh_and_sudoers :: string where
  "line_ssh_and_sudoers = ''2024-01-01 00:00:00 | vm1 | auth.log | '' @ body_ssh_and_sudoers"

definition event_ssh_and_sudoers :: "int SecurityEvent" where
  "event_ssh_and_sudoers = \<lparr>vm_name = ''vm1'', timestamp = 1704067200, source = ''auth.log'',
     message = line_ssh_and_sudoers, severity = HIGH, rule = BRUTE_FORCE,
     metadata = [(''username'', Some ''bob''), (''source_ip'', Some ''10.0.0.5'')]\<rparr>"

section \<open>Evaluation of the character predicates\<close>

text \<open>
  The same predicates on the eight bits of a character, as code equations: they make
  the evaluation of the matcher on a concrete line cheap.
\<close>

lemma is_upper_bits [code]:
  "is_upper (Char b0 b1 b2 b3 b4 b5 b6 b7) =
     (\<not> b7 \<and> b6 \<and> \<not> b5 \<and> (b0 \<or> b1 \<or> b2 \<or> b3 \<or> b4) \<and> \<not> (b3 \<and> b4 \<and> (b2 \<or> (b0 \<and> b1))))"
  by (cases b0; cases b1; cases b2; cases b3; cases b4; cases b5; cases b6; cases b7;
      simp add: is_upper_def less_eq_char_def)

lemma is_lower_bits [code]:
  "is_lower (Char b0 b1 b2 b3 b4 b5 b6 b7) =
     (\<not> b7 \<and> b6 \<and> b5 \<and> (b0 \<or> b1 \<or> b2 \<or> b3 \<or> b4) \<and> \<not> (b3 \<and> b4 \<and> (b2 \<or> (b0 \<and> b1))))"
  by (cases b0; cases b1; cases b2; cases b3; cases b4; cases b5; cases b6; cases b7;
      simp add: is_lower_def less_eq_char_def)

lemma is_digit_bits [code]:
  "is_digit (Char b0 b1 b2 b3 b4 b5 b6 b7) =
     (\<not> b7 \<and> \<not> b6 \<and> b5 \<and> b4 \<and> \<not> (b3 \<and> (b2 \<or> b1)))"
  by (cases b0; cases b1; cases b2; cases b3; cases b4; cases b5; cases b6; cases b7;
      simp add: is_digit_def less_eq_char_def)

lemma is_space_bits [code]:
  "is_space (Char b0 b1 b2 b3 b4 b5 b6 b7) =
     (\<not> b7 \<and> \<not> b6 \<and>
      (if b5 then \<not> b4 \<and> \<not> b3 \<and> \<not> b2 \<and> \<not> b1 \<and> \<not> b0
       else if b4 then b3 \<and> b2
       else b3 \<and> (b2 \<or> b1 \<or> b0) \<and> \<not> (b2 \<and> b1)))"
  by (cases b0; cases b1; cases b2; cases b3; cases b4; cases b5; cases b6; cases b7;
      simp add: is_space_def)

lemma lower_char_bits [code]:
  "lower_char (Char b0 b1 b2 b3 b4 b5 b6 b7) =
     (if is_upper (Char b0 b1 b2 b3 b4 b5 b6 b7) then Char b0 b1 b2 b3 b4 True b6 b7
      else Char b0 b1 b2 b3 b4 b5 b6 b7)"
  by (cases b0; cases b1; cases b2; cases b3; cases b4; cases b5; cases b6; cases b7;
      simp add: lower_char_def is_upper_def less_eq_char_def char_of_def bit_Suc_0_iff)

section \<open>Properties of the classification of one line\<close>

lemma first_rule_in_registry:
  "first_rule reg msg = Some (r, m) \<Longrightarrow> r \<in> fst ` set reg"
  by (induction reg) (auto split: option.splits)

lemma get_severity_not_low:
  "r \<noteq> OTHER \<Longrightarrow> get_severity r m msg = Inr sev \<Longrightarrow> sev \<noteq> LOW"
  by (cases r) (auto simp: get_severity_def split: if_splits option.splits)

lemma parse_log_line_event:
  assumes "parse_log_line strptime now line = Inr (Some e)"
  obtains ts vm src body r m sev where
    "py_strip line \<noteq> []"
    "py_split '' | '' 3 (py_strip line) = [ts, vm, src, body]"
    "first_rule patterns body = Some (r, m)"
    "get_severity r m body = Inr sev"
    "e = \<lparr>vm_name = vm, timestamp = (case strptime ts of Some t \<Rightarrow> t | None \<Rightarrow> now),
          source = src, message = py_strip line, severity = sev, rule = r,
          metadata = extract_metadata r m body\<rparr>"
  using assms unfolding parse_log_line_def
  by (auto simp: Let_def split: if_splits list.splits option.splits sum.splits)

text \<open>
  C8. Every event that the parser produces carries one of the four rules of the
  registry, never \<open>other\<close>, and so the severity classifier's last branch is not taken:
  no produced event has the severity \<open>low\<close>.
\<close>

theorem C8_rule_of_registry_severity_not_low:
  assumes "parse_log_line strptime now line = Inr (Some e)"
  shows "rule e \<in> {EGRESS, BRUTE_FORCE, SUDO, OOM_KILL} \<and> rule e \<noteq> OTHER \<and> severity e \<noteq> LOW"
proof -
  from assms obtain ts vm src body r m sev where
    fr: "first_rule patterns body = Some (r, m)" and
    gs: "get_severity r m body = Inr sev" and
    e: "e = \<lparr>vm_name = vm, timestamp = (case strptime ts of Some t \<Rightarrow> t | None \<Rightarrow> now),
          source = src, message = py_strip line, severity = sev, rule = r,
          metadata = extract_metadata r m body\<rparr>"
    by (rule parse_log_line_event)
  from first_rule_in_registry [OF fr] have r: "r \<in> {EGRESS, BRUTE_FORCE, SUDO, OOM_KILL}"
    by (simp add: patterns_def)
  then have "r \<noteq> OTHER" by auto
  then have "sev \<noteq> LOW" using gs by (rule get_severity_not_low)
  with r e show ?thesis by auto
qed

theorem C8_witness:
  "parse_log_line example_strptime 7 line_ssh = Inr (Some event_ssh) \<and>
   rule event_ssh \<in> {EGRESS, BRUTE_FORCE, SUDO, OOM_KILL} \<and> rule event_ssh \<noteq> OTHER \<and>
   severity event_ssh \<noteq> LOW"
proof -
  have p: "parse_log_line example_strptime 7 line_ssh = Inr (Some event_ssh)"
    by code_simp
  show ?thesis
    using p C8_rule_of_registry_severity_not_low [OF p] by simp
qed

subsection \<open>Splitting a line into its fields\<close>

lemma split_from_nonempty: "split_from sep n cur s \<noteq> []"
  by (induction sep n cur s rule: split_from.induct) auto

lemma split_from_length: "length (split_from sep n cur s) \<le> Suc n"
  by (induction sep n cur s rule: split_from.induct) auto

lemma prefix_cut:
  assumes "prefix sep (xs @ ys)" "length sep \<le> length xs"
  shows "prefix sep (xs @ zs)"
proof -
  have "prefix xs (xs @ ys)" by simp
  with assms have "prefix sep xs" by (meson prefix_length_prefix)
  then show ?thesis by (simp add: prefix_prefix)
qed

lemma split_from_first:
  assumes "split_from sep (Suc n) cur s = p # q # ps" "sep \<noteq> []"
  shows "\<exists>a rest. s = a @ sep @ rest \<and> p = cur @ a \<and> q # ps = split_from sep n [] rest \<and>
           (\<forall>rest'. split_from sep (Suc n) cur (a @ sep @ rest') =
              (cur @ a) # split_from sep n [] rest')"
  using assms
proof (induction s arbitrary: cur)
  case Nil
  then show ?case by simp
next
  case (Cons c cs)
  obtain x sep' where sep: "sep = x # sep'" using Cons.prems(2) by (cases sep) auto
  show ?case
  proof (cases "prefix sep (c # cs)")
    case True
    then obtain rest where rest: "c # cs = sep @ rest" by (auto simp: prefix_def)
    have all: "split_from sep (Suc n) cur (sep @ rest') = cur # split_from sep n [] rest'" for rest'
      by (simp add: sep)
    from Cons.prems(1) rest all [of rest] have "p = cur" "q # ps = split_from sep n [] rest"
      by auto
    with rest all show ?thesis
      by (intro exI [of _ "[]"] exI [of _ rest]) simp
  next
    case False
    with Cons.prems(1) have "split_from sep (Suc n) (cur @ [c]) cs = p # q # ps" by simp
    from Cons.IH [OF this Cons.prems(2)] obtain a rest where
      cs: "cs = a @ sep @ rest" and p: "p = (cur @ [c]) @ a" and
      q: "q # ps = split_from sep n [] rest" and
      all: "\<And>rest'. split_from sep (Suc n) (cur @ [c]) (a @ sep @ rest') =
              ((cur @ [c]) @ a) # split_from sep n [] rest'"
      by blast
    have np: "\<not> prefix sep (c # a @ sep @ rest')" for rest'
    proof
      assume "prefix sep (c # a @ sep @ rest')"
      then have "prefix sep ((c # a @ sep) @ rest')" by simp
      then have "prefix sep ((c # a @ sep) @ rest)" by (rule prefix_cut) simp
      with False cs show False by simp
    qed
    have "split_from sep (Suc n) cur ((c # a) @ sep @ rest') =
            (cur @ c # a) # split_from sep n [] rest'" for rest'
      using np [of rest'] all [of rest'] by simp
    with cs p q show ?thesis
      by (intro exI [of _ "c # a"] exI [of _ rest]) simp
  qed
qed

lemma py_split_four:
  assumes "py_split sep 3 s = [a, b, c, d]" "sep \<noteq> []"
  shows "s = a @ sep @ b @ sep @ c @ sep @ d"
    and "py_split sep 3 (a @ sep @ b @ sep @ c @ sep @ d') = [a, b, c, d']"
proof -
  have three: "(3::nat) = Suc (Suc (Suc 0))" by simp
  from assms(1) have s0: "split_from sep (Suc (Suc (Suc 0))) [] s = a # b # [c, d]"
    by (simp add: py_split_def three)
  from split_from_first [OF s0 assms(2)] obtain a1 r1 where
    1: "s = a1 @ sep @ r1" "a = a1" "b # [c, d] = split_from sep (Suc (Suc 0)) [] r1"
       "\<And>r. split_from sep (Suc (Suc (Suc 0))) [] (a1 @ sep @ r) = a1 # split_from sep (Suc (Suc 0)) [] r"
    by auto
  from split_from_first [OF 1(3) [symmetric] assms(2)] obtain b1 r2 where
    2: "r1 = b1 @ sep @ r2" "b = b1" "[c, d] = split_from sep (Suc 0) [] r2"
       "\<And>r. split_from sep (Suc (Suc 0)) [] (b1 @ sep @ r) = b1 # split_from sep (Suc 0) [] r"
    by auto
  from split_from_first [OF 2(3) [symmetric] assms(2)] obtain c1 r3 where
    3: "r2 = c1 @ sep @ r3" "c = c1" "[d] = split_from sep 0 [] r3"
       "\<And>r. split_from sep (Suc 0) [] (c1 @ sep @ r) = c1 # split_from sep 0 [] r"
    by auto
  from 3(3) have "d = r3" by simp
  with 1 2 3 show "s = a @ sep @ b @ sep @ c @ sep @ d" by simp
  show "py_split sep 3 (a @ sep @ b @ sep @ c @ sep @ d') = [a, b, c, d']"
    unfolding py_split_def three using 1(2,4) 2(2,4) 3(2,4) by simp
qed

lemma py_strip_blank:
  assumes "list_all is_space line"
  shows "py_strip line = []"
  using assms
  by (auto simp: py_strip_def dropWhile_eq_Nil_conv list_all_iff dest: set_dropWhileD)

lemma py_strip_id:
  assumes "line \<noteq> []" "\<not> is_space (hd line)" "\<not> is_space (last line)"
  shows "py_strip line = line"
proof -
  from assms have 1: "dropWhile is_space line = line" by (cases line) auto
  from assms have "rev line \<noteq> []" "\<not> is_space (hd (rev line))" by (auto simp: hd_rev)
  then have "dropWhile is_space (rev line) = rev line" by (cases "rev line") auto
  with 1 show ?thesis by (simp add: py_strip_def)
qed

lemma py_split_stripped_nonempty:
  "py_split '' | '' 3 s = [a, b, c, d] \<Longrightarrow> s \<noteq> []"
  by (auto simp: py_split_def numeral_3_eq_3)

lemma parse_log_line_split:
  assumes "py_split '' | '' 3 (py_strip line) = [ts, vm, src, body]"
  shows "parse_log_line strptime now line =
     (case first_rule patterns body of
        None \<Rightarrow> Inr None
      | Some (r, m) \<Rightarrow>
          (case get_severity r m body of
             Inl err \<Rightarrow> Inl err
           | Inr sev \<Rightarrow>
               Inr (Some \<lparr>vm_name = vm,
                          timestamp = (case strptime ts of Some t \<Rightarrow> t | None \<Rightarrow> now),
                          source = src, message = py_strip line, severity = sev, rule = r,
                          metadata = extract_metadata r m body\<rparr>)))"
  using assms py_split_stripped_nonempty [OF assms]
  by (simp add: parse_log_line_def Let_def)

text \<open>
  C4. The parser yields no result for a blank or whitespace-only line, and for a line
  that does not split into exactly four parts on the delimiter \<open>" | "\<close>. The split
  never produces more than four parts; when it produces four, the line is the four
  parts joined by the delimiter, and whatever text stands in the fourth place,
  delimiters included, becomes the fourth part. The parser takes that fourth part as
  the message body: a line of four parts is classified by the patterns on its fourth
  part, and so is the line with any other text in the fourth place, with or without
  delimiters in it.
\<close>

theorem C4_no_result_and_fourth_field_absorbs:
  "(list_all is_space line \<longrightarrow> parse_log_line strptime now line = Inr None) \<and>
   (length (py_split '' | '' 3 (py_strip line)) \<noteq> 4 \<longrightarrow>
      parse_log_line strptime now line = Inr None) \<and>
   length (py_split '' | '' 3 s) \<le> 4 \<and>
   (py_split '' | '' 3 s = [a, b, c, d] \<longrightarrow>
      s = a @ '' | '' @ b @ '' | '' @ c @ '' | '' @ d \<and>
      (\<forall>d'. py_split '' | '' 3 (a @ '' | '' @ b @ '' | '' @ c @ '' | '' @ d') = [a, b, c, d'])) \<and>
   (py_split '' | '' 3 (py_strip line) = [ts, vm, src, body] \<longrightarrow>
      parse_log_line strptime now line =
        (case first_rule patterns body of
           None \<Rightarrow> Inr None
         | Some (r, m) \<Rightarrow>
             (case get_severity r m body of
                Inl err \<Rightarrow> Inl err
              | Inr sev \<Rightarrow>
                  Inr (Some \<lparr>vm_name = vm,
                             timestamp = (case strptime ts of Some t \<Rightarrow> t | None \<Rightarrow> now),
                             source = src, message = py_strip line, severity = sev, rule = r,
                             metadata = extract_metadata r m body\<rparr>)))) \<and>
   (py_split '' | '' 3 (py_strip line) = [ts, vm, src, body] \<and>
    py_strip (ts @ '' | '' @ vm @ '' | '' @ src @ '' | '' @ body') =
      ts @ '' | '' @ vm @ '' | '' @ src @ '' | '' @ body' \<longrightarrow>
      parse_log_line strptime now (ts @ '' | '' @ vm @ '' | '' @ src @ '' | '' @ body') =
        (case first_rule patterns body' of
           None \<Rightarrow> Inr None
         | Some (r, m) \<Rightarrow>
             (case get_severity r m body' of
                Inl err \<Rightarrow> Inl err
              | Inr sev \<Rightarrow>
                  Inr (Some \<lparr>vm_name = vm,
                             timestamp = (case strptime ts of Some t \<Rightarrow> t | None \<Rightarrow> now),
                             source = src,
                             message = ts @ '' | '' @ vm @ '' | '' @ src @ '' | '' @ body',
                             severity = sev, rule = r,
                             metadata = extract_metadata r m body'\<rparr>))))"
proof -
  have blank: "parse_log_line strptime now line = Inr None" if "list_all is_space line"
  proof -
    from that have "py_strip line = []" by (rule py_strip_blank)
    then show ?thesis by (simp add: parse_log_line_def)
  qed
  have parts: "parse_log_line strptime now line = Inr None"
    if "length (py_split '' | '' 3 (py_strip line)) \<noteq> 4"
    using that by (auto simp: parse_log_line_def split: list.splits)
  have "length (split_from '' | '' 3 [] s) \<le> Suc 3" by (rule split_from_length)
  then have most: "length (py_split '' | '' 3 s) \<le> 4" by (simp add: py_split_def)
  have joined: "s = a @ '' | '' @ b @ '' | '' @ c @ '' | '' @ d"
    if "py_split '' | '' 3 s = [a, b, c, d]"
    using that by (rule py_split_four) simp
  have absorbs: "py_split '' | '' 3 (a @ '' | '' @ b @ '' | '' @ c @ '' | '' @ d') = [a, b, c, d']"
    if "py_split '' | '' 3 s = [a, b, c, d]" for d'
    using that by (rule py_split_four) simp
  have other: "parse_log_line strptime now (ts @ '' | '' @ vm @ '' | '' @ src @ '' | '' @ body') =
        (case first_rule patterns body' of
           None \<Rightarrow> Inr None
         | Some (r, m) \<Rightarrow>
             (case get_severity r m body' of
                Inl err \<Rightarrow> Inl err
              | Inr sev \<Rightarrow>
                  Inr (Some \<lparr>vm_name = vm,
                             timestamp = (case strptime ts of Some t \<Rightarrow> t | None \<Rightarrow> now),
                             source = src,
                             message = ts @ '' | '' @ vm @ '' | '' @ src @ '' | '' @ body',
                             severity = sev, rule = r,
                             metadata = extract_metadata r m body'\<rparr>)))"
    if sp: "py_split '' | '' 3 (py_strip line) = [ts, vm, src, body]"
      and st: "py_strip (ts @ '' | '' @ vm @ '' | '' @ src @ '' | '' @ body') =
        ts @ '' | '' @ vm @ '' | '' @ src @ '' | '' @ body'"
  proof -
    let ?line = "ts @ '' | '' @ vm @ '' | '' @ src @ '' | '' @ body'"
    from sp have "py_split '' | '' 3 ?line = [ts, vm, src, body']"
      by (rule py_split_four) simp
    with st have "py_split '' | '' 3 (py_strip ?line) = [ts, vm, src, body']"
      by simp
    from parse_log_line_split [OF this, of strptime now] show ?thesis
      by (simp only: st)
  qed
  from blank parts most joined absorbs other parse_log_line_split [of line ts vm src body strptime now]
  show ?thesis by blast
qed

theorem C4_witness:
  "parse_log_line example_strptime 0 ''   '' = Inr None \<and>
   parse_log_line example_strptime 0 ''2024-01-01 00:00:00 | vm1 | sshd[7]: Invalid user bob from 10.1.2.3'' = Inr None \<and>
   py_split '' | '' 3 line_body_with_delimiter =
     [''2024-01-01 00:00:00'', ''vm1'', ''auth.log'',
      ''sshd[7]: Invalid user bob from 10.1.2.3 | port 22 | ssh2''] \<and>
   py_split '' | '' 3 (''2024-01-01 00:00:00'' @ '' | '' @ ''vm1'' @ '' | '' @ ''auth.log'' @ '' | '' @ ''a | b | c | d'') =
     [''2024-01-01 00:00:00'', ''vm1'', ''auth.log'', ''a | b | c | d''] \<and>
   parse_log_line example_strptime 0 line_body_with_delimiter =
     Inr (Some event_body_with_delimiter) \<and>
   parse_log_line example_strptime 0
     (''2024-01-01 00:00:00'' @ '' | '' @ ''u2-vm30000'' @ '' | '' @ ''auth.log'' @ '' | '' @
      ''sshd[7]: Invalid user bob from 10.1.2.3 | port 22 | ssh2'') =
     Inr (Some \<lparr>vm_name = ''u2-vm30000'', timestamp = 1704067200, source = ''auth.log'',
       message = ''2024-01-01 00:00:00'' @ '' | '' @ ''u2-vm30000'' @ '' | '' @ ''auth.log'' @ '' | '' @
         ''sshd[7]: Invalid user bob from 10.1.2.3 | port 22 | ssh2'',
       severity = HIGH, rule = BRUTE_FORCE,
       metadata = [(''username'', Some ''bob''), (''source_ip'', Some ''10.1.2.3'')]\<rparr>)"
proof -
  let ?body = "''sshd[7]: Invalid user bob from 10.1.2.3 | port 22 | ssh2''"
  have blank: "list_all is_space ''   ''" by code_simp
  have three: "length (py_split '' | '' 3 (py_strip ''2024-01-01 00:00:00 | vm1 | sshd[7]: Invalid user bob from 10.1.2.3'')) \<noteq> 4"
    by code_simp
  have four: "py_split '' | '' 3 line_body_with_delimiter =
     [''2024-01-01 00:00:00'', ''vm1'', ''auth.log'', ?body]"
    by code_simp
  have st: "py_strip line_body_with_delimiter = line_body_with_delimiter" by code_simp
  have fr: "first_rule patterns ?body = Some (BRUTE_FORCE, [Some ''bob'', Some ''10.1.2.3''])"
    by code_simp
  have sp: "py_split '' | '' 3 (py_strip line_ssh) =
     [''2024-01-01 00:00:00'', ''u2-vm30000'', ''auth.log'',
      ''sshd[123]: Failed password for invalid user root from 10.0.0.5'']"
    by code_simp
  have st': "py_strip (''2024-01-01 00:00:00'' @ '' | '' @ ''u2-vm30000'' @ '' | '' @ ''auth.log'' @
      '' | '' @ ?body) =
      ''2024-01-01 00:00:00'' @ '' | '' @ ''u2-vm30000'' @ '' | '' @ ''auth.log'' @ '' | '' @ ?body"
    by code_simp
  have gs: "get_severity BRUTE_FORCE [Some ''bob'', Some ''10.1.2.3''] ?body = Inr HIGH"
    by (simp add: get_severity_def)
  have md: "extract_metadata BRUTE_FORCE [Some ''bob'', Some ''10.1.2.3''] ?body =
      [(''username'', Some ''bob''), (''source_ip'', Some ''10.1.2.3'')]"
    by (simp add: extract_metadata_def)
  have ts: "example_strptime ''2024-01-01 00:00:00'' = Some 1704067200"
    by (simp add: example_strptime_def)
  note c4a = C4_no_result_and_fourth_field_absorbs [of "''   ''" example_strptime 0
      line_body_with_delimiter "''2024-01-01 00:00:00''" "''vm1''" "''auth.log''" ?body]
  note c4b = C4_no_result_and_fourth_field_absorbs [of
      "''2024-01-01 00:00:00 | vm1 | sshd[7]: Invalid user bob from 10.1.2.3''" example_strptime 0
      line_body_with_delimiter "''2024-01-01 00:00:00''" "''vm1''" "''auth.log''" ?body]
  note c4c = C4_no_result_and_fourth_field_absorbs [of line_body_with_delimiter example_strptime 0
      line_body_with_delimiter "''2024-01-01 00:00:00''" "''vm1''" "''auth.log''" ?body
      "''2024-01-01 00:00:00''" "''vm1''" "''auth.log''" ?body ?body]
  note c4d = C4_no_result_and_fourth_field_absorbs [of line_ssh example_strptime 0
      line_body_with_delimiter "''2024-01-01 00:00:00''" "''vm1''" "''auth.log''" ?body
      "''2024-01-01 00:00:00''" "''u2-vm30000''" "''auth.log''"
      "''sshd[123]: Failed password for invalid user root from 10.0.0.5''" ?body]
  have 1: "parse_log_line example_strptime 0 ''   '' = Inr None"
    using blank c4a by blast
  have 2: "parse_log_line example_strptime 0 ''2024-01-01 00:00:00 | vm1 | sshd[7]: Invalid user bob from 10.1.2.3'' = Inr None"
    using three c4b by blast
  have 3: "py_split '' | '' 3 (''2024-01-01 00:00:00'' @ '' | '' @ ''vm1'' @ '' | '' @ ''auth.log'' @ '' | '' @ ''a | b | c | d'') =
     [''2024-01-01 00:00:00'', ''vm1'', ''auth.log'', ''a | b | c | d'']"
    using four c4a by blast
  from four st have "py_split '' | '' 3 (py_strip line_body_with_delimiter) =
     [''2024-01-01 00:00:00'', ''vm1'', ''auth.log'', ?body]"
    by simp
  with c4c have "parse_log_line example_strptime 0 line_body_with_delimiter =
        (case first_rule patterns ?body of
           None \<Rightarrow> Inr None
         | Some (r, m) \<Rightarrow>
             (case get_severity r m ?body of
                Inl err \<Rightarrow> Inl err
              | Inr sev \<Rightarrow>
                  Inr (Some \<lparr>vm_name = ''vm1'',
                             timestamp = (case example_strptime ''2024-01-01 00:00:00'' of Some t \<Rightarrow> t | None \<Rightarrow> 0),
                             source = ''auth.log'', message = py_strip line_body_with_delimiter,
                             severity = sev, rule = r,
                             metadata = extract_metadata r m ?body\<rparr>)))"
    by blast
  then have 4: "parse_log_line example_strptime 0 line_body_with_delimiter =
     Inr (Some event_body_with_delimiter)"
    unfolding fr st by (simp add: gs md ts event_body_with_delimiter_def)
  from sp st' c4d have "parse_log_line example_strptime 0
      (''2024-01-01 00:00:00'' @ '' | '' @ ''u2-vm30000'' @ '' | '' @ ''auth.log'' @ '' | '' @ ?body) =
        (case first_rule patterns ?body of
           None \<Rightarrow> Inr None
         | Some (r, m) \<Rightarrow>
             (case get_severity r m ?body of
                Inl err \<Rightarrow> Inl err
              | Inr sev \<Rightarrow>
                  Inr (Some \<lparr>vm_name = ''u2-vm30000'',
                             timestamp = (case example_strptime ''2024-01-01 00:00:00'' of Some t \<Rightarrow> t | None \<Rightarrow> 0),
                             source = ''auth.log'',
                             message = ''2024-01-01 00:00:00'' @ '' | '' @ ''u2-vm30000'' @ '' | '' @ ''auth.log'' @ '' | '' @ ?body,
                             severity = sev, rule = r,
                             metadata = extract_metadata r m ?body\<rparr>)))"
    by blast
  then have 5: "parse_log_line example_strptime 0
      (''2024-01-01 00:00:00'' @ '' | '' @ ''u2-vm30000'' @ '' | '' @ ''auth.log'' @ '' | '' @ ?body) =
     Inr (Some \<lparr>vm_name = ''u2-vm30000'', timestamp = 1704067200, source = ''auth.log'',
       message = ''2024-01-01 00:00:00'' @ '' | '' @ ''u2-vm30000'' @ '' | '' @ ''auth.log'' @ '' | '' @ ?body,
       severity = HIGH, rule = BRUTE_FORCE,
       metadata = [(''username'', Some ''bob''), (''source_ip'', Some ''10.1.2.3'')]\<rparr>)"
    unfolding fr by (simp only: gs md ts option.case sum.case prod.case)
  from 1 2 3 4 5 four show ?thesis by (intro conjI)
qed

subsection \<open>The message and the timestamp of an event\<close>

lemma py_split_join:
  assumes "py_split '' | '' 3 s = [a, b, c, d]"
  shows "s = a @ '' | '' @ b @ '' | '' @ c @ '' | '' @ d"
  using assms by (rule py_split_four) simp

text \<open>
  C5. The message of a produced event is the input line with leading and
  trailing whitespace stripped: the whole four-field line (timestamp, VM name, source
  and body joined by the delimiter), not the body alone. It is the input line itself
  when the line neither starts nor ends with whitespace.
\<close>

theorem C5_message_is_stripped_line:
  assumes "parse_log_line strptime now line = Inr (Some e)"
  shows "message e = py_strip line \<and>
         (\<exists>ts body. message e = ts @ '' | '' @ vm_name e @ '' | '' @ source e @ '' | '' @ body \<and>
            first_rule patterns body \<noteq> None) \<and>
         (\<not> is_space (hd line) \<and> \<not> is_space (last line) \<longrightarrow> message e = line)"
proof -
  from assms obtain ts vm src body r m sev where
    ne: "py_strip line \<noteq> []" and
    sp: "py_split '' | '' 3 (py_strip line) = [ts, vm, src, body]" and
    fr: "first_rule patterns body = Some (r, m)" and
    e: "e = \<lparr>vm_name = vm, timestamp = (case strptime ts of Some t \<Rightarrow> t | None \<Rightarrow> now),
          source = src, message = py_strip line, severity = sev, rule = r,
          metadata = extract_metadata r m body\<rparr>"
    by (rule parse_log_line_event)
  from e have msg: "message e = py_strip line" by simp
  from py_split_join [OF sp] e fr
  have whole: "\<exists>ts body. message e = ts @ '' | '' @ vm_name e @ '' | '' @ source e @ '' | '' @ body \<and>
            first_rule patterns body \<noteq> None"
    by (intro exI [of _ ts] exI [of _ body]) simp
  have "message e = line" if "\<not> is_space (hd line)" "\<not> is_space (last line)"
  proof -
    from ne have "line \<noteq> []" by (auto simp: py_strip_def)
    with that have "py_strip line = line" by (intro py_strip_id)
    with msg show ?thesis by simp
  qed
  with msg whole show ?thesis by blast
qed

theorem C5_witness:
  "parse_log_line example_strptime 7 line_ssh_newline = Inr (Some event_ssh) \<and>
   message event_ssh = py_strip line_ssh_newline \<and>
   parse_log_line example_strptime 7 line_ssh = Inr (Some event_ssh) \<and>
   message event_ssh = line_ssh"
proof -
  have p: "parse_log_line example_strptime 7 line_ssh_newline = Inr (Some event_ssh)"
    by code_simp
  have q: "parse_log_line example_strptime 7 line_ssh = Inr (Some event_ssh)"
    by code_simp
  show ?thesis
    using p q C5_message_is_stripped_line [OF p] C5_message_is_stripped_line [OF q]
    by (simp add: event_ssh_def)
qed

theorem C5_counterexample:
  "parse_log_line example_strptime 7 line_ssh_newline = Inr (Some event_ssh) \<and>
   message event_ssh \<noteq> line_ssh_newline"
proof -
  have "parse_log_line example_strptime 7 line_ssh_newline = Inr (Some event_ssh)"
    by code_simp
  then show ?thesis
    by (simp add: event_ssh_def line_ssh_newline_def)
qed

text \<open>
  C7. Two classifications of one line, at two wall-clock times, have the same outcome
  (no result, an error, or an event), and two events agree on every field but the
  timestamp. The timestamps are equal too when the timestamp field of the line parses;
  they can differ only when it does not, and then each is the wall-clock time of its run.
\<close>

theorem C7_reclassification:
  "(parse_log_line strptime now1 line = Inr None \<longleftrightarrow> parse_log_line strptime now2 line = Inr None) \<and>
   (parse_log_line strptime now1 line = Inl err \<longleftrightarrow> parse_log_line strptime now2 line = Inl err) \<and>
   (parse_log_line strptime now1 line = Inr (Some e1) \<and>
    parse_log_line strptime now2 line = Inr (Some e2) \<longrightarrow>
      vm_name e1 = vm_name e2 \<and> source e1 = source e2 \<and> message e1 = message e2 \<and>
      severity e1 = severity e2 \<and> rule e1 = rule e2 \<and> metadata e1 = metadata e2 \<and>
      (case strptime (hd (py_split '' | '' 3 (py_strip line))) of
         Some t \<Rightarrow> timestamp e1 = t \<and> timestamp e2 = t
       | None \<Rightarrow> timestamp e1 = now1 \<and> timestamp e2 = now2))"
  unfolding parse_log_line_def
  by (auto simp: Let_def split: if_splits list.splits option.splits sum.splits)

theorem C7_witness:
  "parse_log_line example_strptime 7 line_ssh = Inr (Some event_ssh) \<and>
   parse_log_line example_strptime 8 line_ssh = Inr (Some event_ssh) \<and>
   parse_log_line example_strptime 7 line_bad_timestamp = Inr (Some (event_bad_timestamp 7)) \<and>
   parse_log_line example_strptime 8 line_bad_timestamp = Inr (Some (event_bad_timestamp 8)) \<and>
   example_strptime (hd (py_split '' | '' 3 (py_strip line_bad_timestamp))) = None \<and>
   timestamp (event_bad_timestamp 7) \<noteq> timestamp (event_bad_timestamp 8) \<and>
   metadata (event_bad_timestamp 7) = metadata (event_bad_timestamp 8)"
proof -
  have a: "parse_log_line example_strptime 7 line_ssh = Inr (Some event_ssh)" by code_simp
  have b: "parse_log_line example_strptime 8 line_ssh = Inr (Some event_ssh)" by code_simp
  have c: "parse_log_line example_strptime 7 line_bad_timestamp = Inr (Some (event_bad_timestamp 7))"
    by code_simp
  have d: "parse_log_line example_strptime 8 line_bad_timestamp = Inr (Some (event_bad_timestamp 8))"
    by code_simp
  have e: "example_strptime (hd (py_split '' | '' 3 (py_strip line_bad_timestamp))) = None"
    by code_simp
  show ?thesis
    using a b c d e
      C7_reclassification [of example_strptime 7 line_bad_timestamp 8 AttributeError
        "event_bad_timestamp 7" "event_bad_timestamp 8"]
    by (simp add: event_bad_timestamp_def)
qed

section \<open>Properties of the threat analysis\<close>

subsection \<open>Counters\<close>

lemma bump_keys:
  "map fst (bump k d) = (if k \<in> set (map fst d) then map fst d else map fst d @ [k])"
  by (induction d) force+

lemma bump_distinct: "distinct (map fst d) \<Longrightarrow> distinct (map fst (bump k d))"
  by (simp add: bump_keys)

lemma bump_map_of:
  "map_of (bump k d) k' =
     (if k' = k then Some (Suc (counter_get d k)) else map_of d k')"
  by (induction d) (auto simp: counter_get_def)

lemma dict_get_nonempty: "dict_get d k = Some v \<Longrightarrow> d \<noteq> []"
  by (auto simp: dict_get_def)

lemma ip_failures_step:
  "ip_failures (analyze_step st e) =
     (case dict_get (metadata e) ''source_ip'' of
        Some ip \<Rightarrow> if rule e = BRUTE_FORCE \<and> ip \<noteq> [] then bump ip (ip_failures st)
                   else ip_failures st
      | None \<Rightarrow> ip_failures st)"
  by (auto simp: analyze_step_def track_brute_def track_sudo_def track_egress_def
      split: option.splits dest: dict_get_nonempty)

lemma tally_events_snoc:
  "tally_events (evs @ [e]) = analyze_step (tally_events evs) e"
  by (simp add: tally_events_def)

lemma ip_count_snoc:
  "ip_count (evs @ [e]) ip = ip_count evs ip + (if counts_as_brute e ip then 1 else 0)"
  by (simp add: ip_count_def)

lemma ip_failures_tally:
  "distinct (map fst (ip_failures (tally_events evs))) \<and>
   (\<forall>ip. map_of (ip_failures (tally_events evs)) ip =
      (if ip_count evs ip = 0 then None else Some (ip_count evs ip)))"
proof (induction evs rule: rev_induct)
  case Nil
  then show ?case by (simp add: tally_events_def tally0_def ip_count_def)
next
  case (snoc e evs)
  let ?d = "ip_failures (tally_events evs)"
  from snoc have dist: "distinct (map fst ?d)"
    and mo: "\<And>ip. map_of ?d ip = (if ip_count evs ip = 0 then None else Some (ip_count evs ip))"
    by auto
  have cg: "counter_get ?d ip = ip_count evs ip" for ip
    by (simp add: counter_get_def mo)
  show ?case
  proof (cases "dict_get (metadata e) ''source_ip''")
    case None
    then have "\<not> counts_as_brute e ip" for ip by (simp add: counts_as_brute_def)
    with None dist mo show ?thesis
      by (simp add: tally_events_snoc ip_failures_step ip_count_snoc)
  next
    case (Some ip0)
    show ?thesis
    proof (cases "rule e = BRUTE_FORCE \<and> ip0 \<noteq> []")
      case True
      with Some have cb: "counts_as_brute e ip \<longleftrightarrow> ip = ip0" for ip
        by (auto simp: counts_as_brute_def)
      from True Some have st: "ip_failures (tally_events (evs @ [e])) = bump ip0 ?d"
        by (simp add: tally_events_snoc ip_failures_step)
      show ?thesis
        unfolding st using dist
        by (auto simp: bump_distinct bump_map_of cg mo ip_count_snoc cb)
    next
      case False
      with Some have "\<not> counts_as_brute e ip" for ip by (auto simp: counts_as_brute_def)
      with False Some dist mo show ?thesis
        by (auto simp: tally_events_snoc ip_failures_step ip_count_snoc)
    qed
  qed
qed

lemma ip_failures_member:
  "(ip, n) \<in> set (ip_failures (tally_events evs)) \<longleftrightarrow> n = ip_count evs ip \<and> 0 < n"
proof -
  from ip_failures_tally [of evs]
  have d: "distinct (map fst (ip_failures (tally_events evs)))"
    and m: "map_of (ip_failures (tally_events evs)) ip =
      (if ip_count evs ip = 0 then None else Some (ip_count evs ip))"
    by auto
  from d have "(ip, n) \<in> set (ip_failures (tally_events evs)) \<longleftrightarrow>
    map_of (ip_failures (tally_events evs)) ip = Some n"
    by simp
  with m show ?thesis by auto
qed

subsection \<open>The decimal rendering of a count\<close>

lemma nat_of_str_nat: "nat_of_str (str_nat n) = n"
proof (induction n rule: str_nat.induct)
  case (1 n)
  show ?case
  proof (cases "n < 10")
    case True
    then show ?thesis by (simp add: str_nat.simps [of n] nat_of_str_def)
  next
    case False
    have "n mod 10 < 10" by simp
    then have "(48 + n mod 10) mod 256 = 48 + n mod 10" by simp
    with False "1.IH" show ?thesis
      by (simp add: str_nat.simps [of n] nat_of_str_def)
  qed
qed

lemma str_nat_inject: "str_nat n = str_nat m \<Longrightarrow> n = m"
  by (metis nat_of_str_nat)

lemma digit_not_colon: "d < 10 \<Longrightarrow> char_of (48 + d :: nat) \<noteq> CHR '':''"
proof
  assume d: "d < 10" and "char_of (48 + d) = CHR '':''"
  then have "(of_char (char_of (48 + d)) :: nat) = of_char CHR '':''" by simp
  with d show False by simp
qed

lemma str_nat_no_colon: "CHR '':'' \<notin> set (str_nat n)"
proof (induction n rule: str_nat.induct)
  case (1 n)
  show ?case
  proof (cases "n < 10")
    case True
    then show ?thesis using digit_not_colon [of n] by (auto simp: str_nat.simps [of n])
  next
    case False
    have "n mod 10 < 10" by simp
    then have "char_of (48 + n mod 10) \<noteq> CHR '':''" by (rule digit_not_colon)
    with False "1.IH" show ?thesis by (auto simp: str_nat.simps [of n])
  qed
qed

lemma last_mark_unique:
  assumes "xs @ c # r = xs' @ c # r'" "c \<notin> set r" "c \<notin> set r'"
  shows "xs = xs' \<and> r = r'"
proof -
  have "takeWhile (\<lambda>x. x \<noteq> c) (rev (xs @ c # r)) = rev r"
    using assms(2) by (auto simp: takeWhile_tail)
  moreover have "takeWhile (\<lambda>x. x \<noteq> c) (rev (xs' @ c # r')) = rev r'"
    using assms(3) by (auto simp: takeWhile_tail)
  ultimately have "r = r'" using assms(1) by simp
  with assms(1) show ?thesis by simp
qed

lemma brute_line_inject:
  assumes "brute_line ip n = brute_line ip' n'"
  shows "ip = ip' \<and> n = n'"
proof -
  let ?r = "\<lambda>k. '' '' @ str_nat k @ '' failed attempts''"
  from assms have "ip @ CHR '':'' # ?r n = ip' @ CHR '':'' # ?r n'"
    by (simp add: brute_line_def)
  moreover have "CHR '':'' \<notin> set (?r k)" for k by (simp add: str_nat_no_colon)
  ultimately have "ip = ip' \<and> ?r n = ?r n'" by (intro last_mark_unique)
  then show ?thesis by (auto dest: str_nat_inject)
qed

subsection \<open>The brute-force threat lines\<close>

lemma brute_lines_count:
  "distinct (map fst d) \<Longrightarrow>
   count_list (concat (map (\<lambda>(ip, n). if n > 5 then [brute_line ip n] else []) d))
     (brute_line ip n) = (if (ip, n) \<in> set d \<and> 5 < n then 1 else 0)"
proof (induction d)
  case Nil
  then show ?case by simp
next
  case (Cons p d)
  obtain k m where p: "p = (k, m)" by (cases p)
  from Cons.prems p have "(k, j) \<notin> set d" for j by (auto simp: image_iff)
  with Cons p show ?case by (auto dest: brute_line_inject)
qed

lemma sudo_line_not_brute: "sudo_line user m \<noteq> brute_line ip n"
  by (simp add: sudo_line_def brute_line_def)

lemma egress_line_not_brute: "egress_line k \<noteq> brute_line ip n"
  by (simp add: egress_line_def brute_line_def)

lemma sudo_lines_count:
  "count_list (concat (map (\<lambda>(user, n). if n > 10 then [sudo_line user n] else []) d))
     (brute_line ip n) = 0"
  by (induction d) (auto simp: sudo_line_not_brute)

lemma brute_line_count:
  "count_list (threats (analyze_events evs)) (brute_line ip n) =
     (if 5 < n \<and> n = ip_count evs ip then 1 else 0)"
proof -
  from ip_failures_tally [of evs]
  have "distinct (map fst (ip_failures (tally_events evs)))" by simp
  then show ?thesis
    by (auto simp: analyze_events_def Let_def brute_lines_count sudo_lines_count
        ip_failures_member egress_line_not_brute)
qed

text \<open>
  C2. A brute-force threat line for a source IP is emitted exactly when the
  accumulated attempt count of the IP is strictly greater than 5, and then once, with
  that count. So a batch in which the IP has 5 brute-force events has no threat line
  for it, and a batch in which it has 6 has exactly one, with the count 6.
\<close>

theorem C2_brute_force_threshold:
  "count_list (threats (analyze_events evs)) (brute_line ip n) =
     (if 5 < n \<and> n = ip_count evs ip then 1 else 0) \<and>
   ((\<exists>n. brute_line ip n \<in> set (threats (analyze_events evs))) \<longleftrightarrow> 5 < ip_count evs ip) \<and>
   (ip_count evs ip = 5 \<longrightarrow> (\<forall>n. brute_line ip n \<notin> set (threats (analyze_events evs)))) \<and>
   (ip_count evs ip = 6 \<longrightarrow>
      count_list (threats (analyze_events evs)) (brute_line ip 6) = 1 \<and>
      (\<forall>n. n \<noteq> 6 \<longrightarrow> brute_line ip n \<notin> set (threats (analyze_events evs))))"
proof -
  have mem: "brute_line ip k \<in> set (threats (analyze_events evs)) \<longleftrightarrow>
      5 < k \<and> k = ip_count evs ip" for k
    using brute_line_count [of evs ip k] count_list_0_iff [of "threats (analyze_events evs)" "brute_line ip k"]
    by (auto split: if_splits)
  show ?thesis
    by (simp add: brute_line_count mem)
qed

theorem C2_witness:
  "ip_count (batch_same_ip 5) ''10.0.0.5'' = 5 \<and>
   threats (analyze_events (batch_same_ip 5)) = [] \<and>
   ip_count (batch_same_ip 6) ''10.0.0.5'' = 6 \<and>
   threats (analyze_events (batch_same_ip 6)) =
     [''Brute force attack from 10.0.0.5: 6 failed attempts''] \<and>
   count_list (threats (analyze_events (batch_same_ip 6))) (brute_line ''10.0.0.5'' 6) = 1 \<and>
   brute_line ''10.0.0.5'' 5 \<notin> set (threats (analyze_events (batch_same_ip 5)))"
proof -
  have a: "ip_count (batch_same_ip 5) ''10.0.0.5'' = 5" by code_simp
  have b: "threats (analyze_events (batch_same_ip 5)) = []" by code_simp
  have c: "ip_count (batch_same_ip 6) ''10.0.0.5'' = 6" by code_simp
  have d: "threats (analyze_events (batch_same_ip 6)) =
     [''Brute force attack from 10.0.0.5: 6 failed attempts'']" by code_simp
  show ?thesis
    using a b c d C2_brute_force_threshold [of "batch_same_ip 6" "''10.0.0.5''" 6]
      C2_brute_force_threshold [of "batch_same_ip 5" "''10.0.0.5''" 5]
    by simp
qed

subsection \<open>The rate-limiting recommendation\<close>

lemma ip_failures_keys:
  "set (map fst (ip_failures (tally_events evs))) = {ip. 0 < ip_count evs ip}"
proof -
  have "ip \<in> set (map fst (ip_failures (tally_events evs))) \<longleftrightarrow> 0 < ip_count evs ip" for ip
  proof -
    have "ip \<in> set (map fst (ip_failures (tally_events evs))) \<longleftrightarrow>
        (\<exists>n. (ip, n) \<in> set (ip_failures (tally_events evs)))"
      by force
    then show ?thesis by (simp add: ip_failures_member)
  qed
  then show ?thesis by blast
qed

lemma ip_failures_length:
  "length (ip_failures (tally_events evs)) = card {ip. 0 < ip_count evs ip}"
proof -
  from ip_failures_tally [of evs]
  have "distinct (map fst (ip_failures (tally_events evs)))" by simp
  then have "card (set (map fst (ip_failures (tally_events evs)))) =
      length (map fst (ip_failures (tally_events evs)))"
    by (rule distinct_card)
  then show ?thesis using ip_failures_keys [of evs] by simp
qed

lemma rate_limit_iff:
  "REC_RATE_LIMIT \<in> set (recommendations (analyze_events evs)) \<longleftrightarrow>
     3 < card {ip. 0 < ip_count evs ip}"
proof -
  have "REC_CRITICAL \<noteq> REC_RATE_LIMIT" "REC_DLP \<noteq> REC_RATE_LIMIT"
    by (simp_all add: REC_CRITICAL_def REC_RATE_LIMIT_def REC_DLP_def)
  then show ?thesis
    by (auto simp: analyze_events_def Let_def ip_failures_length)
qed

text \<open>
  C6. The recommendation to add IP-based rate limiting is produced exactly when the
  per-IP tally of the brute-force events has more than 3 distinct IPs. It does not
  depend on the threat list: four IPs with one attempt each give the recommendation
  and no threat line, and one IP with six attempts gives a threat line and no
  recommendation.
\<close>

theorem C6_rate_limit_recommendation:
  "(REC_RATE_LIMIT \<in> set (recommendations (analyze_events evs)) \<longleftrightarrow>
      3 < card {ip. 0 < ip_count evs ip}) \<and>
   REC_RATE_LIMIT \<in> set (recommendations (analyze_events batch_four_ips)) \<and>
   threats (analyze_events batch_four_ips) = [] \<and>
   REC_RATE_LIMIT \<notin> set (recommendations (analyze_events (batch_same_ip 6))) \<and>
   threats (analyze_events (batch_same_ip 6)) = [brute_line ''10.0.0.5'' 6]"
proof -
  have a: "recommendations (analyze_events batch_four_ips) = [REC_RATE_LIMIT]" by code_simp
  have b: "threats (analyze_events batch_four_ips) = []" by code_simp
  have c: "recommendations (analyze_events (batch_same_ip 6)) = []" by code_simp
  have d: "threats (analyze_events (batch_same_ip 6)) = [brute_line ''10.0.0.5'' 6]" by code_simp
  show ?thesis
    using a b c d by (simp add: rate_limit_iff)
qed

theorem C6_witness:
  "recommendations (analyze_events batch_four_ips) = [REC_RATE_LIMIT] \<and>
   3 < card {ip. 0 < ip_count batch_four_ips ip} \<and>
   recommendations (analyze_events (batch_same_ip 6)) = [] \<and>
   \<not> 3 < card {ip. 0 < ip_count (batch_same_ip 6) ip}"
proof -
  have a: "recommendations (analyze_events batch_four_ips) = [REC_RATE_LIMIT]" by code_simp
  have c: "recommendations (analyze_events (batch_same_ip 6)) = []" by code_simp
  show ?thesis
    using a c C6_rate_limit_recommendation [of batch_four_ips]
      C6_rate_limit_recommendation [of "batch_same_ip 6"]
    by simp
qed

section \<open>Properties of the matcher and of the registry\<close>

subsection \<open>The matcher\<close>

lemma greedy_suffix:
  "t \<in> set (greedy k s) \<Longrightarrow> \<exists>u. s = u @ t \<and> (\<forall>x\<in>set u. cls_match k x)"
proof (induction s)
  case Nil
  then show ?case by simp
next
  case (Cons x s)
  show ?case
  proof (cases "t = x # s")
    case True
    then show ?thesis by simp
  next
    case False
    with Cons.prems have k: "cls_match k x" and "t \<in> set (greedy k s)"
      by (auto split: if_splits)
    with Cons.IH obtain u where "s = u @ t" "\<forall>x\<in>set u. cls_match k x" by blast
    with k show ?thesis by (intro exI [of _ "x # u"]) simp
  qed
qed

lemma mt_Seq_iff:
  "(t, d) \<in> set (mt (Seq a b) st) \<longleftrightarrow> (\<exists>st'\<in>set (mt a st). (t, d) \<in> set (mt b st'))"
  by auto

lemma mt_length: "(t, d) \<in> set (mt r (s, c)) \<Longrightarrow> length d = length c"
proof (induction r arbitrary: s c t d)
  case (Chr k)
  then show ?case by (auto split: list.splits if_splits)
next
  case (Plus k)
  then show ?case by (auto split: list.splits if_splits)
next
  case (Seq a b)
  then obtain s' c' where "(s', c') \<in> set (mt a (s, c))" "(t, d) \<in> set (mt b (s', c'))"
    by auto
  with Seq.IH show ?case by fastforce
next
  case (Grp i a)
  then obtain d' where "(t, d') \<in> set (mt a (s, c))" "d = d'[i := Some (take (length s - length t) s)]"
    by auto
  with Grp.IH show ?case by fastforce
qed auto

lemma mt_consumes: "(t, d) \<in> set (mt r (s, c)) \<Longrightarrow> \<exists>u. s = u @ t"
proof (induction r arbitrary: s c t d)
  case (Chr k)
  then show ?case by (auto split: list.splits if_splits)
next
  case (Star k)
  then show ?case by (auto dest: greedy_suffix)
next
  case (Plus k)
  then obtain x xs where s: "s = x # xs" and "t \<in> set (greedy k xs)"
    by (auto split: list.splits if_splits)
  then obtain u where "xs = u @ t" by (auto dest: greedy_suffix)
  with s show ?case by (intro exI [of _ "x # u"]) simp
next
  case (Seq a b)
  then obtain s' c' where "(s', c') \<in> set (mt a (s, c))" "(t, d) \<in> set (mt b (s', c'))"
    by auto
  with Seq.IH obtain u v where "s = u @ s'" "s' = v @ t" by blast
  then show ?case by (intro exI [of _ "u @ v"]) simp
next
  case (Grp i a)
  then obtain d' where "(t, d') \<in> set (mt a (s, c))" by auto
  with Grp.IH show ?case by blast
qed auto

lemma mt_keeps_other_groups:
  "(t, d) \<in> set (mt r (s, c)) \<Longrightarrow> i \<notin> grps r \<Longrightarrow> d ! i = c ! i"
proof (induction r arbitrary: s c t d)
  case (Chr k)
  then show ?case by (auto split: list.splits if_splits)
next
  case (Plus k)
  then show ?case by (auto split: list.splits if_splits)
next
  case (Seq a b)
  then obtain s' c' where "(s', c') \<in> set (mt a (s, c))" "(t, d) \<in> set (mt b (s', c'))"
    by auto
  with Seq.IH Seq.prems(2) show ?case by fastforce
next
  case (Grp j a)
  then obtain d' where "(t, d') \<in> set (mt a (s, c))" "d = d'[j := Some (take (length s - length t) s)]"
    by auto
  with Grp.IH Grp.prems(2) show ?case by fastforce
qed auto

lemma mt_Grp_captures:
  assumes "(t, d) \<in> set (mt (Grp i a) (s, c))" "i < length c"
  shows "\<exists>u d'. s = u @ t \<and> (t, d') \<in> set (mt a (s, c)) \<and> d = d'[i := Some u] \<and> d ! i = Some u"
proof -
  from assms(1) obtain d' where d': "(t, d') \<in> set (mt a (s, c))"
    "d = d'[i := Some (take (length s - length t) s)]"
    by auto
  from mt_consumes [OF d'(1)] obtain u where u: "s = u @ t" by blast
  from mt_length [OF d'(1)] assms(2) have "i < length d'" by simp
  with d' u show ?thesis by (intro exI [of _ u] exI [of _ d']) simp
qed

subsection \<open>Sequences of parts and literal runs\<close>

lemma cat_Nil: "cat [] = Eps"
  by (simp add: cat_def)

lemma cat_Cons: "cat (r # rs) = Seq r (cat rs)"
  by (simp add: cat_def)

lemma concat_map_concat:
  "concat (map f (concat (map g xs))) = concat (map (\<lambda>x. concat (map f (g x))) xs)"
  by (induction xs) auto

lemma mt_cat_append:
  "mt (cat (xs @ ys)) st = concat (map (mt (cat ys)) (mt (cat xs) st))"
proof (induction xs arbitrary: st)
  case Nil
  then show ?case by (simp add: cat_Nil)
next
  case (Cons x xs)
  have "mt (cat ((x # xs) @ ys)) st = concat (map (mt (cat (xs @ ys))) (mt x st))"
    by (simp add: cat_Cons)
  also have "\<dots> = concat (map (\<lambda>st'. concat (map (mt (cat ys)) (mt (cat xs) st'))) (mt x st))"
  proof -
    have "mt (cat (xs @ ys)) = (\<lambda>st'. concat (map (mt (cat ys)) (mt (cat xs) st')))"
      by (rule ext) (rule Cons.IH)
    then show ?thesis by simp
  qed
  also have "\<dots> = concat (map (mt (cat ys)) (concat (map (mt (cat xs)) (mt x st))))"
    by (simp add: concat_map_concat)
  finally show ?case by (simp add: cat_Cons)
qed

lemma grps_lit: "grps (lit w) = {}"
  by (induction w) (auto simp: lit_def)

lemma grps_cat: "grps (cat rs) = (\<Union>r\<in>set rs. grps r)"
  by (induction rs) (auto simp: cat_Nil cat_Cons)

lemma ngroups_lit: "ngroups (lit w) = 0"
  by (induction w) (auto simp: lit_def)

lemma ngroups_cat: "ngroups (cat rs) = sum_list (map ngroups rs)"
  by (induction rs) (auto simp: cat_Nil cat_Cons)

lemma mt_lit:
  "(t, d) \<in> set (mt (lit w) (s, c)) \<Longrightarrow>
     d = c \<and> (\<exists>u. s = u @ t \<and> map lower_char u = map lower_char w)"
proof (induction w arbitrary: s)
  case Nil
  then show ?case by (simp add: lit_def)
next
  case (Cons x w)
  have l: "lit (x # w) = Seq (Chr (Lit x)) (lit w)" by (simp add: lit_def)
  from Cons.prems obtain y s' where s: "s = y # s'" and y: "lower_char y = lower_char x"
    and "(t, d) \<in> set (mt (lit w) (s', c))"
    unfolding l by (auto split: list.splits if_splits)
  with Cons.IH obtain u where "d = c" "s' = u @ t" "map lower_char u = map lower_char w"
    by blast
  with s y show ?case by (intro conjI exI [of _ "y # u"]) simp_all
qed

subsection \<open>Searching\<close>

lemma match_at_first:
  "match_at p s = Some m \<Longrightarrow> \<exists>t rest. mt p (s, replicate (ngroups p) None) = (t, m) # rest"
  by (auto simp: match_at_def split: list.splits)

lemma search_position:
  "search p s = Some m \<Longrightarrow> \<exists>pre s'. s = pre @ s' \<and> match_at p s' = Some m"
proof (induction s)
  case Nil
  then show ?case by simp
next
  case (Cons x s)
  show ?case
  proof (cases "match_at p (x # s)")
    case None
    with Cons obtain pre s' where "s = pre @ s'" "match_at p s' = Some m" by auto
    then show ?thesis by (intro exI [of _ "x # pre"] exI [of _ s']) simp
  next
    case (Some d)
    with Cons.prems have "match_at p (x # s) = Some m" by simp
    then show ?thesis by (intro exI [of _ "[]"] exI [of _ "x # s"]) simp
  qed
qed

lemma search_result:
  assumes "search p s = Some m"
  shows "length m = ngroups p"
    and "\<exists>pre s' t. s = pre @ s' \<and> (t, m) \<in> set (mt p (s', replicate (ngroups p) None))"
proof -
  from search_position [OF assms] obtain pre s' where s: "s = pre @ s'"
    and "match_at p s' = Some m" by blast
  from match_at_first [OF this(2)] obtain t rest where
    "mt p (s', replicate (ngroups p) None) = (t, m) # rest" by blast
  then have m: "(t, m) \<in> set (mt p (s', replicate (ngroups p) None))" by simp
  from mt_length [OF m] show "length m = ngroups p" by simp
  from s m show "\<exists>pre s' t. s = pre @ s' \<and> (t, m) \<in> set (mt p (s', replicate (ngroups p) None))"
    by blast
qed

lemma cat_group_captures:
  assumes "(t, d) \<in> set (mt (cat (pre @ Grp i a # post)) (s, c))"
    and "i < length c" and "i \<notin> grps (cat post)"
  shows "\<exists>s1 c1 t1 d1 u. (s1, c1) \<in> set (mt (cat pre) (s, c)) \<and> s1 = u @ t1 \<and>
           (t1, d1) \<in> set (mt a (s1, c1)) \<and> d ! i = Some u \<and>
           (t, d) \<in> set (mt (cat post) (t1, d1[i := Some u]))"
proof -
  from assms(1) obtain s1 c1 where 1: "(s1, c1) \<in> set (mt (cat pre) (s, c))"
    and "(t, d) \<in> set (mt (cat (Grp i a # post)) (s1, c1))"
    by (auto simp: mt_cat_append)
  then have "(t, d) \<in> set (mt (Seq (Grp i a) (cat post)) (s1, c1))"
    by (simp only: cat_Cons)
  then obtain st' where f: "st' \<in> set (mt (Grp i a) (s1, c1))" "(t, d) \<in> set (mt (cat post) st')"
    unfolding mt_Seq_iff by blast
  obtain t1 d2 where st': "st' = (t1, d2)" by (cases st')
  have 2: "(t1, d2) \<in> set (mt (Grp i a) (s1, c1))" using f(1) unfolding st' .
  have 3: "(t, d) \<in> set (mt (cat post) (t1, d2))" using f(2) unfolding st' .
  from mt_length [OF 1] assms(2) have "i < length c1" by simp
  from mt_Grp_captures [OF 2 this] obtain u d1 where
    4: "s1 = u @ t1" "(t1, d1) \<in> set (mt a (s1, c1))" "d2 = d1[i := Some u]" "d2 ! i = Some u"
    by blast
  from mt_keeps_other_groups [OF 3 assms(3)] 4 have "d ! i = Some u" by simp
  with 1 3 4 show ?thesis by blast
qed

subsection \<open>The egress rule\<close>

lemma py_in_iff: "py_in sub s \<longleftrightarrow> (\<exists>u v. s = u @ sub @ v)"
proof (induction s)
  case Nil
  then show ?case by simp
next
  case (Cons c s)
  show ?case
  proof
    assume "py_in sub (c # s)"
    then consider "prefix sub (c # s)" | "py_in sub s" by auto
    then show "\<exists>u v. c # s = u @ sub @ v"
    proof cases
      case 1
      then obtain v where "c # s = sub @ v" by (auto simp: prefix_def)
      then show ?thesis by (intro exI [of _ "[]"] exI [of _ v]) simp
    next
      case 2
      with Cons obtain u v where "s = u @ sub @ v" by blast
      then show ?thesis by (intro exI [of _ "c # u"] exI [of _ v]) simp
    qed
  next
    assume "\<exists>u v. c # s = u @ sub @ v"
    then obtain u v where uv: "c # s = u @ sub @ v" by blast
    show "py_in sub (c # s)"
    proof (cases u)
      case Nil
      with uv have "prefix sub (c # s)" by (metis append_Nil prefixI)
      then show ?thesis by simp
    next
      case (Cons x u')
      with uv have "s = u' @ sub @ v" by simp
      with Cons.IH show ?thesis by auto
    qed
  qed
qed

lemma sensitive_exts_iff:
  "list_ex (\<lambda>ext. py_in ext (py_lower g)) sensitive_exts \<longleftrightarrow> contains_sensitive_ext g"
  by (simp add: sensitive_exts_def contains_sensitive_ext_def py_in_iff py_lower_def
      list_ex_iff)

lemma EGRESS_1_shape:
  "EGRESS_1 = cat ([lit ''kernel:'', Star AnyChar, lit ''egress'', Star Space, lit ''('',
     Plus Digit, lit '')'', Star Space, lit ''pid'', Plus Space, Grp 0 (Plus Digit),
     Plus Space, lit ''read'', Plus Space] @
     Grp 1 (Alt (Plus NotSpace) (cat [lit ''('', Plus (NotLit CHR '')''), lit '')''])) #
     [Plus Space, lit ''write'', Plus Space, Grp 2 (Star NotSpace),
      Plus Space, lit ''uid'', Plus Space, Grp 3 (Plus Digit),
      Plus Space, lit ''gid'', Plus Space, Grp 4 (Plus Digit)])"
  by (simp add: EGRESS_1_def)

lemma ngroups_EGRESS_1: "ngroups EGRESS_1 = 5"
  by (simp add: EGRESS_1_def ngroups_cat ngroups_lit)

lemma egress_match_groups:
  assumes "search EGRESS_1 body = Some m"
  shows "length m = 5 \<and> (\<exists>g. m ! 1 = Some g)"
proof -
  from search_result [OF assms] obtain pre s' t where
    len: "length m = 5" and
    m: "(t, m) \<in> set (mt EGRESS_1 (s', replicate 5 None))"
    by (auto simp: ngroups_EGRESS_1)
  from m have "\<exists>s1 c1 t1 d1 u. (s1, c1) \<in> set (mt (cat [lit ''kernel:'', Star AnyChar, lit ''egress'', Star Space, lit ''('',
     Plus Digit, lit '')'', Star Space, lit ''pid'', Plus Space, Grp 0 (Plus Digit),
     Plus Space, lit ''read'', Plus Space]) (s', replicate 5 None)) \<and> s1 = u @ t1 \<and>
           (t1, d1) \<in> set (mt (Alt (Plus NotSpace) (cat [lit ''('', Plus (NotLit CHR '')''), lit '')''])) (s1, c1)) \<and> m ! 1 = Some u \<and>
           (t, m) \<in> set (mt (cat [Plus Space, lit ''write'', Plus Space, Grp 2 (Star NotSpace),
      Plus Space, lit ''uid'', Plus Space, Grp 3 (Plus Digit),
      Plus Space, lit ''gid'', Plus Space, Grp 4 (Plus Digit)]) (t1, d1[1 := Some u]))"
    unfolding EGRESS_1_shape
    by (rule cat_group_captures) (simp_all add: grps_cat grps_lit)
  with len show ?thesis by blast
qed

lemma first_rule_egress:
  "first_rule patterns body = Some (EGRESS, m) \<Longrightarrow> search EGRESS_1 body = Some m"
  by (auto simp: patterns_def split: option.splits)

lemma get_severity_egress:
  assumes "length m = 5" "m ! 1 = Some g"
  shows "get_severity EGRESS m body = Inr (if contains_sensitive_ext g then CRITICAL else HIGH)"
  using assms by (simp add: get_severity_def sensitive_exts_iff)

text \<open>
  C3. For every match of the egress pattern, the read-source token (the pattern's
  second group) is captured, and the severity is critical if the token contains,
  case-insensitively, one of \<open>.csv\<close>, \<open>.zip\<close>, \<open>.sql\<close>, \<open>.key\<close>, \<open>.pem\<close>, and high
  otherwise. The same holds of every egress event that the parser produces, whose
  metadata field \<open>read_file\<close> is that token.
\<close>

theorem C3_egress_severity:
  "(search EGRESS_1 body = Some m \<longrightarrow>
      (\<exists>g. m ! 1 = Some g \<and>
         get_severity EGRESS m body =
           Inr (if contains_sensitive_ext g then CRITICAL else HIGH))) \<and>
   (parse_log_line strptime now line = Inr (Some e) \<and> rule e = EGRESS \<longrightarrow>
      (\<exists>g. dict_get (metadata e) ''read_file'' = Some g \<and>
         severity e = (if contains_sensitive_ext g then CRITICAL else HIGH)))"
proof (intro conjI impI)
  assume "search EGRESS_1 body = Some m"
  from egress_match_groups [OF this] obtain g where "length m = 5" "m ! 1 = Some g" by blast
  then show "\<exists>g. m ! 1 = Some g \<and>
         get_severity EGRESS m body = Inr (if contains_sensitive_ext g then CRITICAL else HIGH)"
    by (auto simp: get_severity_egress)
next
  assume a: "parse_log_line strptime now line = Inr (Some e) \<and> rule e = EGRESS"
  then obtain ts vm src b r m' sev where
    fr: "first_rule patterns b = Some (r, m')" and
    gs: "get_severity r m' b = Inr sev" and
    e: "e = \<lparr>vm_name = vm, timestamp = (case strptime ts of Some t \<Rightarrow> t | None \<Rightarrow> now),
          source = src, message = py_strip line, severity = sev, rule = r,
          metadata = extract_metadata r m' b\<rparr>"
    by (auto elim: parse_log_line_event)
  from a e have r: "r = EGRESS" by simp
  from fr r have "search EGRESS_1 b = Some m'" by (auto intro: first_rule_egress)
  from egress_match_groups [OF this] obtain g where g: "length m' = 5" "m' ! 1 = Some g" by blast
  with gs r have "sev = (if contains_sensitive_ext g then CRITICAL else HIGH)"
    by (simp add: get_severity_egress)
  moreover from g r e have "dict_get (metadata e) ''read_file'' = Some g"
    by (simp add: extract_metadata_def dict_get_def)
  ultimately show "\<exists>g. dict_get (metadata e) ''read_file'' = Some g \<and>
         severity e = (if contains_sensitive_ext g then CRITICAL else HIGH)"
    using e by auto
qed

theorem C3_witness:
  "search EGRESS_1 ''kernel: egress (1) pid 4242 read /srv/db/dump.SQL write 10.9.8.7 uid 0 gid 0'' =
     Some [Some ''4242'', Some ''/srv/db/dump.SQL'', Some ''10.9.8.7'', Some ''0'', Some ''0''] \<and>
   get_severity EGRESS
     [Some ''4242'', Some ''/srv/db/dump.SQL'', Some ''10.9.8.7'', Some ''0'', Some ''0'']
     ''kernel: egress (1) pid 4242 read /srv/db/dump.SQL write 10.9.8.7 uid 0 gid 0'' = Inr CRITICAL \<and>
   parse_log_line example_strptime 7 line_egress_sql = Inr (Some event_egress_sql) \<and>
   dict_get (metadata event_egress_sql) ''read_file'' = Some ''/srv/db/dump.SQL'' \<and>
   contains_sensitive_ext ''/srv/db/dump.SQL'' \<and>
   severity event_egress_sql = CRITICAL \<and>
   parse_log_line example_strptime 7 line_egress_txt = Inr (Some event_egress_txt) \<and>
   dict_get (metadata event_egress_txt) ''read_file'' = Some ''/tmp/notes.txt'' \<and>
   \<not> contains_sensitive_ext ''/tmp/notes.txt'' \<and>
   severity event_egress_txt = HIGH"
proof -
  have a: "parse_log_line example_strptime 7 line_egress_sql = Inr (Some event_egress_sql)"
    by code_simp
  have b: "parse_log_line example_strptime 7 line_egress_txt = Inr (Some event_egress_txt)"
    by code_simp
  have ra: "rule event_egress_sql = EGRESS" and rb: "rule event_egress_txt = EGRESS"
    by (simp_all add: event_egress_sql_def event_egress_txt_def)
  have ga: "dict_get (metadata event_egress_sql) ''read_file'' = Some ''/srv/db/dump.SQL''"
    and gb: "dict_get (metadata event_egress_txt) ''read_file'' = Some ''/tmp/notes.txt''"
    by (simp_all add: event_egress_sql_def event_egress_txt_def dict_get_def)
  have sa: "severity event_egress_sql = CRITICAL" and sb: "severity event_egress_txt = HIGH"
    by (simp_all add: event_egress_sql_def event_egress_txt_def)
  let ?body = "''kernel: egress (1) pid 4242 read /srv/db/dump.SQL write 10.9.8.7 uid 0 gid 0''"
  let ?m = "[Some ''4242'', Some ''/srv/db/dump.SQL'', Some ''10.9.8.7'', Some ''0'', Some ''0'']"
  have se: "search EGRESS_1 ?body = Some ?m" by code_simp
  from C3_egress_severity [of ?body ?m example_strptime 7 line_egress_sql event_egress_sql]
    a ra ga sa
  have ca: "contains_sensitive_ext ''/srv/db/dump.SQL''"
    by (auto split: if_splits)
  from C3_egress_severity [of ?body ?m example_strptime 7 line_egress_sql event_egress_sql]
    se ca
  have gs: "get_severity EGRESS ?m ?body = Inr CRITICAL"
    by auto
  from C3_egress_severity [of "[]" "[]" example_strptime 7 line_egress_txt event_egress_txt]
    b rb gb sb
  have cb: "\<not> contains_sensitive_ext ''/tmp/notes.txt''"
    by (auto split: if_splits)
  from se gs a b ga gb sa sb ca cb show ?thesis by simp
qed

subsection \<open>The order of the rules\<close>

lemma first_pattern_first_match:
  "first_match (map (Pair r) ps @ rest) body =
     (case first_pattern ps body of Some m \<Rightarrow> Some (r, m) | None \<Rightarrow> first_match rest body)"
  by (induction ps) (auto split: option.splits)

lemma first_rule_first_match:
  "first_rule reg body = first_match (concat (map (\<lambda>(r, ps). map (Pair r) ps) reg)) body"
  by (induction reg) (auto simp: first_pattern_first_match split: option.splits)

lemma first_match_iff:
  "first_match l body = Some (r, m) \<longleftrightarrow>
     (\<exists>pre p post. l = pre @ (r, p) # post \<and> search p body = Some m \<and>
        (\<forall>q\<in>set pre. search (snd q) body = None))"
proof (induction l)
  case Nil
  then show ?case by simp
next
  case (Cons x l)
  obtain r' p' where x: "x = (r', p')" by (cases x)
  show ?case
  proof (cases "search p' body")
    case None
    have "(\<exists>pre p post. x # l = pre @ (r, p) # post \<and> search p body = Some m \<and>
        (\<forall>q\<in>set pre. search (snd q) body = None)) \<longleftrightarrow>
      (\<exists>pre p post. l = pre @ (r, p) # post \<and> search p body = Some m \<and>
        (\<forall>q\<in>set pre. search (snd q) body = None))" (is "?L \<longleftrightarrow> ?R")
    proof
      assume ?L
      then obtain pre p post where h: "x # l = pre @ (r, p) # post" "search p body = Some m"
        "\<forall>q\<in>set pre. search (snd q) body = None" by blast
      with None x obtain pre' where "pre = x # pre'" by (cases pre) auto
      with h show ?R by auto
    next
      assume ?R
      then obtain pre p post where h: "l = pre @ (r, p) # post" "search p body = Some m"
        "\<forall>q\<in>set pre. search (snd q) body = None" by blast
      with None x show ?L by (intro exI [of _ "x # pre"] exI [of _ p] exI [of _ post]) simp
    qed
    with None x Cons.IH show ?thesis by simp
  next
    case (Some m')
    have "(\<exists>pre p post. x # l = pre @ (r, p) # post \<and> search p body = Some m \<and>
        (\<forall>q\<in>set pre. search (snd q) body = None)) \<longleftrightarrow> r = r' \<and> m = m'"
    proof
      assume "\<exists>pre p post. x # l = pre @ (r, p) # post \<and> search p body = Some m \<and>
        (\<forall>q\<in>set pre. search (snd q) body = None)"
      then obtain pre p post where h: "x # l = pre @ (r, p) # post" "search p body = Some m"
        "\<forall>q\<in>set pre. search (snd q) body = None" by blast
      show "r = r' \<and> m = m'"
      proof (cases pre)
        case Nil
        with h x Some show ?thesis by simp
      next
        case (Cons y pre')
        with h x Some show ?thesis by auto
      qed
    next
      assume "r = r' \<and> m = m'"
      with Some x show "\<exists>pre p post. x # l = pre @ (r, p) # post \<and> search p body = Some m \<and>
        (\<forall>q\<in>set pre. search (snd q) body = None)"
        by (intro exI [of _ "[]"] exI [of _ p'] exI [of _ l]) simp
    qed
    with Some x show ?thesis by auto
  qed
qed

lemma rule_order_eq:
  "rule_order = [(EGRESS, EGRESS_1), (BRUTE_FORCE, BRUTE_1), (BRUTE_FORCE, BRUTE_2),
     (BRUTE_FORCE, BRUTE_3), (SUDO, SUDO_1), (SUDO, SUDO_2), (SUDO, SUDO_3),
     (OOM_KILL, OOM_1), (OOM_KILL, OOM_2)]"
  by (simp add: rule_order_def patterns_def)

lemma brute_or_egress:
  assumes "\<exists>p\<in>set [BRUTE_1, BRUTE_2, BRUTE_3]. search p body \<noteq> None"
  shows "\<exists>m. first_rule patterns body =
           Some (if search EGRESS_1 body = None then BRUTE_FORCE else EGRESS, m) \<and>
           (search EGRESS_1 body \<noteq> None \<longrightarrow> search EGRESS_1 body = Some m)"
  using assms by (auto simp: patterns_def split: option.splits)

text \<open>
  C1. Pattern matching returns the first pattern that matches the message
  body in the fixed order of the registry (egress, then the three brute-force
  patterns, the three sudo patterns and the two out-of-memory patterns, each rule's
  patterns in their order of declaration), with that pattern's rule. A line whose body
  matches a brute-force pattern is never classified sudo, whether or not a sudo
  pattern matches too: it is classified brute_force, unless the body also matches the
  egress pattern, and then it is classified egress.
\<close>

theorem C1_first_rule_in_fixed_order:
  "first_rule patterns body = first_match rule_order body \<and>
   map fst rule_order = [EGRESS, BRUTE_FORCE, BRUTE_FORCE, BRUTE_FORCE, SUDO, SUDO, SUDO,
     OOM_KILL, OOM_KILL] \<and>
   (first_rule patterns body = Some (r, m) \<longleftrightarrow>
      (\<exists>pre p post. rule_order = pre @ (r, p) # post \<and> search p body = Some m \<and>
         (\<forall>q\<in>set pre. search (snd q) body = None))) \<and>
   (py_split '' | '' 3 (py_strip line) = [ts, vm, src, body] \<and>
    (\<exists>p\<in>set [BRUTE_1, BRUTE_2, BRUTE_3]. search p body \<noteq> None) \<longrightarrow>
      (\<exists>e. parse_log_line strptime now line = Inr (Some e) \<and> rule e \<noteq> SUDO \<and>
         rule e = (if search EGRESS_1 body = None then BRUTE_FORCE else EGRESS)))"
proof (intro conjI impI)
  show fm: "first_rule patterns body = first_match rule_order body"
    by (simp add: rule_order_def first_rule_first_match)
  show "map fst rule_order = [EGRESS, BRUTE_FORCE, BRUTE_FORCE, BRUTE_FORCE, SUDO, SUDO, SUDO,
     OOM_KILL, OOM_KILL]"
    by (simp add: rule_order_eq)
  show "first_rule patterns body = Some (r, m) \<longleftrightarrow>
      (\<exists>pre p post. rule_order = pre @ (r, p) # post \<and> search p body = Some m \<and>
         (\<forall>q\<in>set pre. search (snd q) body = None))"
    unfolding fm by (rule first_match_iff)
next
  assume a: "py_split '' | '' 3 (py_strip line) = [ts, vm, src, body] \<and>
    (\<exists>p\<in>set [BRUTE_1, BRUTE_2, BRUTE_3]. search p body \<noteq> None)"
  then have sp: "py_split '' | '' 3 (py_strip line) = [ts, vm, src, body]"
    and br: "\<exists>p\<in>set [BRUTE_1, BRUTE_2, BRUTE_3]. search p body \<noteq> None"
    by blast+
  from brute_or_egress [OF br] obtain m' where
    fr: "first_rule patterns body =
           Some (if search EGRESS_1 body = None then BRUTE_FORCE else EGRESS, m')" and
    eg: "search EGRESS_1 body \<noteq> None \<longrightarrow> search EGRESS_1 body = Some m'"
    by blast
  show "\<exists>e. parse_log_line strptime now line = Inr (Some e) \<and> rule e \<noteq> SUDO \<and>
         rule e = (if search EGRESS_1 body = None then BRUTE_FORCE else EGRESS)"
  proof (cases "search EGRESS_1 body = None")
    case True
    with fr show ?thesis
      by (simp add: parse_log_line_split [OF sp] get_severity_def)
  next
    case False
    with eg have "search EGRESS_1 body = Some m'" by simp
    from egress_match_groups [OF this] obtain g where "length m' = 5" "m' ! 1 = Some g"
      by blast
    then have "get_severity EGRESS m' body =
        Inr (if contains_sensitive_ext g then CRITICAL else HIGH)"
      by (rule get_severity_egress)
    moreover from False fr have "first_rule patterns body = Some (EGRESS, m')" by simp
    ultimately show ?thesis using False
      by (simp add: parse_log_line_split [OF sp])
  qed
qed

theorem C1_witness:
  "py_split '' | '' 3 (py_strip line_brute_sudo) =
     [''2024-01-01 00:00:00'', ''vm1'', ''auth.log'', body_brute_sudo] \<and>
   search BRUTE_1 body_brute_sudo \<noteq> None \<and> search SUDO_2 body_brute_sudo \<noteq> None \<and>
   search EGRESS_1 body_brute_sudo = None \<and>
   parse_log_line example_strptime 7 line_brute_sudo = Inr (Some event_brute_sudo) \<and>
   rule event_brute_sudo = BRUTE_FORCE"
proof -
  have sp: "py_split '' | '' 3 (py_strip line_brute_sudo) =
     [''2024-01-01 00:00:00'', ''vm1'', ''auth.log'', body_brute_sudo]" by code_simp
  have b: "search BRUTE_1 body_brute_sudo \<noteq> None" by code_simp
  have s: "search SUDO_2 body_brute_sudo \<noteq> None" by code_simp
  have e: "search EGRESS_1 body_brute_sudo = None" by code_simp
  have p: "parse_log_line example_strptime 7 line_brute_sudo = Inr (Some event_brute_sudo)"
    by code_simp
  from b have br: "\<exists>p\<in>set [BRUTE_1, BRUTE_2, BRUTE_3]. search p body_brute_sudo \<noteq> None"
    by simp
  from C1_first_rule_in_fixed_order [of body_brute_sudo BRUTE_FORCE
      "[Some ''bob'', Some ''10.0.0.5'']" line_brute_sudo
      "''2024-01-01 00:00:00''" "''vm1''" "''auth.log''" example_strptime 7] sp br e p
  have "rule event_brute_sudo = BRUTE_FORCE" by auto
  with sp b s e p show ?thesis by simp
qed

theorem C1_counterexample:
  "py_split '' | '' 3 (py_strip line_three_rules) =
     [''2024-01-01 00:00:00'', ''vm1'', ''auth.log'', body_three_rules] \<and>
   search BRUTE_1 body_three_rules \<noteq> None \<and> search SUDO_2 body_three_rules \<noteq> None \<and>
   parse_log_line example_strptime 7 line_three_rules = Inr (Some event_three_rules) \<and>
   rule event_three_rules \<noteq> BRUTE_FORCE"
proof -
  have sp: "py_split '' | '' 3 (py_strip line_three_rules) =
     [''2024-01-01 00:00:00'', ''vm1'', ''auth.log'', body_three_rules]" by code_simp
  have b: "search BRUTE_1 body_three_rules \<noteq> None" by code_simp
  have s: "search SUDO_2 body_three_rules \<noteq> None" by code_simp
  have p: "parse_log_line example_strptime 7 line_three_rules = Inr (Some event_three_rules)"
    by code_simp
  from sp b s p show ?thesis by (simp add: event_three_rules_def)
qed

subsection \<open>The PAM session pattern of the sudo rule\<close>

lemma SUDO_2_shape:
  "SUDO_2 = cat ([lit ''sudo:'', Star Space, lit ''pam_unix(sudo:session):'', Star Space,
     lit ''session'', Plus Space] @ Grp 0 (Alt (lit ''opened'') (lit ''closed'')) #
     [Plus Space, lit ''for'', Plus Space, lit ''user'', Plus Space, Grp 1 (Plus Word)])"
  by (simp add: SUDO_2_def)

lemma ngroups_SUDO_2: "ngroups SUDO_2 = 2"
  by (simp add: SUDO_2_def ngroups_cat ngroups_lit)

lemma lower_opened: "map lower_char ''opened'' = ''opened''"
  by code_simp

lemma lower_closed: "map lower_char ''closed'' = ''closed''"
  by code_simp

lemma sudo2_match_groups:
  assumes "search SUDO_2 body = Some m"
  shows "length m = 2 \<and> (\<exists>w. m ! 0 = Some w \<and> py_lower w \<in> {''opened'', ''closed''})"
proof -
  from search_result [OF assms] obtain pre s' t where
    len: "length m = 2" and
    m: "(t, m) \<in> set (mt SUDO_2 (s', replicate 2 None))"
    by (auto simp: ngroups_SUDO_2)
  from m have "\<exists>s1 c1 t1 d1 u. (s1, c1) \<in> set (mt (cat [lit ''sudo:'', Star Space,
       lit ''pam_unix(sudo:session):'', Star Space, lit ''session'', Plus Space])
         (s', replicate 2 None)) \<and> s1 = u @ t1 \<and>
     (t1, d1) \<in> set (mt (Alt (lit ''opened'') (lit ''closed'')) (s1, c1)) \<and> m ! 0 = Some u \<and>
     (t, m) \<in> set (mt (cat [Plus Space, lit ''for'', Plus Space, lit ''user'', Plus Space,
       Grp 1 (Plus Word)]) (t1, d1[0 := Some u]))"
    unfolding SUDO_2_shape
    by (rule cat_group_captures) (simp_all add: grps_cat grps_lit)
  then obtain s1 c1 t1 d1 u where s1: "s1 = u @ t1"
    and alt: "(t1, d1) \<in> set (mt (Alt (lit ''opened'') (lit ''closed'')) (s1, c1))"
    and u: "m ! 0 = Some u"
    by blast
  from alt consider "(t1, d1) \<in> set (mt (lit ''opened'') (s1, c1))"
    | "(t1, d1) \<in> set (mt (lit ''closed'') (s1, c1))"
    by auto
  then have "map lower_char u \<in> {''opened'', ''closed''}"
  proof cases
    case 1
    from mt_lit [OF 1] obtain u' where u': "s1 = u' @ t1"
      and l: "map lower_char u' = map lower_char ''opened''"
      by blast
    from u' s1 have "u' = u" by simp
    with l show ?thesis unfolding lower_opened by simp
  next
    case 2
    from mt_lit [OF 2] obtain u' where u': "s1 = u' @ t1"
      and l: "map lower_char u' = map lower_char ''closed''"
      by blast
    from u' s1 have "u' = u" by simp
    with l show ?thesis unfolding lower_closed by simp
  qed
  with len u show ?thesis by (simp add: py_lower_def)
qed

lemma first_rule_pam:
  assumes "\<forall>p\<in>set [EGRESS_1, BRUTE_1, BRUTE_2, BRUTE_3, SUDO_1]. search p body = None"
    and "search SUDO_2 body = Some m"
  shows "first_rule patterns body = Some (SUDO, m)"
  using assms by (simp add: patterns_def)

lemma sudo_tally_step:
  assumes "rule e = SUDO" "metadata e = [(''user'', Some w)]" "w \<noteq> []"
  shows "user_sudo_attempts (analyze_step st e) = bump w (user_sudo_attempts st)"
  using assms
  by (simp add: analyze_step_def track_brute_def track_sudo_def track_egress_def dict_get_def)

text \<open>
  C9. When the sudo PAM-session pattern is the first pattern of the
  registry that matches the body of a line (no egress or brute-force pattern and not
  the first sudo pattern matches it), the event's metadata is the single key \<open>user\<close>,
  and it holds the pattern's first group: the word \<open>opened\<close> or \<open>closed\<close> as the
  line writes it (in any letter case), not the user name. The threat analyzer tallies
  the event under that word in its per-user sudo attempt count.
\<close>

theorem C9_pam_session_user_key:
  assumes "py_split '' | '' 3 (py_strip line) = [ts, vm, src, body]"
    and "\<forall>p\<in>set [EGRESS_1, BRUTE_1, BRUTE_2, BRUTE_3, SUDO_1]. search p body = None"
    and "search SUDO_2 body = Some m"
  shows "\<exists>e w. parse_log_line strptime now line = Inr (Some e) \<and> rule e = SUDO \<and>
           m ! 0 = Some w \<and> py_lower w \<in> {''opened'', ''closed''} \<and>
           metadata e = [(''user'', Some w)] \<and>
           (\<forall>st. user_sudo_attempts (analyze_step st e) = bump w (user_sudo_attempts st)) \<and>
           user_sudo_attempts (tally_events [e]) = [(w, 1)]"
proof -
  from sudo2_match_groups [OF assms(3)] obtain w where
    len: "length m = 2" and w: "m ! 0 = Some w" and lw: "py_lower w \<in> {''opened'', ''closed''}"
    by blast
  from lw have ne: "w \<noteq> []" by (auto simp: py_lower_def)
  obtain sev where sev: "get_severity SUDO m body = Inr sev"
    by (cases "py_in ''USER=root'' body \<or> py_in ''session opened for user root'' body")
      (simp_all add: get_severity_def)
  let ?e = "\<lparr>vm_name = vm, timestamp = (case strptime ts of Some t \<Rightarrow> t | None \<Rightarrow> now),
     source = src, message = py_strip line, severity = sev, rule = SUDO,
     metadata = extract_metadata SUDO m body\<rparr>"
  from first_rule_pam [OF assms(2,3)] sev
  have p: "parse_log_line strptime now line = Inr (Some ?e)"
    by (simp add: parse_log_line_split [OF assms(1)])
  from len w have md: "metadata ?e = [(''user'', Some w)]"
    by (simp add: extract_metadata_def)
  have r: "rule ?e = SUDO" by simp
  have step: "user_sudo_attempts (analyze_step st ?e) = bump w (user_sudo_attempts st)" for st
    using r md ne by (rule sudo_tally_step)
  have "user_sudo_attempts (tally_events [?e]) = [(w, 1)]"
    unfolding tally_events_def using step [of tally0] by (simp add: tally0_def)
  with p r w lw md step show ?thesis by blast
qed

theorem C9_witness:
  "parse_log_line example_strptime 7 line_pam_session = Inr (Some event_pam_session) \<and>
   search SUDO_2 ''sudo: pam_unix(sudo:session): session opened for user root by (uid=0)'' =
     Some [Some ''opened'', Some ''root''] \<and>
   metadata event_pam_session = [(''user'', Some ''opened'')] \<and>
   user_sudo_attempts (tally_events [event_pam_session]) = [(''opened'', 1)]"
proof -
  let ?body = "''sudo: pam_unix(sudo:session): session opened for user root by (uid=0)''"
  have sp: "py_split '' | '' 3 (py_strip line_pam_session) =
     [''2024-01-01 00:00:00'', ''vm1'', ''auth.log'', ?body]" by code_simp
  have n1: "search EGRESS_1 ?body = None" by code_simp
  have n2: "search BRUTE_1 ?body = None" by code_simp
  have n3: "search BRUTE_2 ?body = None" by code_simp
  have n4: "search BRUTE_3 ?body = None" by code_simp
  have n5: "search SUDO_1 ?body = None" by code_simp
  have m: "search SUDO_2 ?body = Some [Some ''opened'', Some ''root'']" by code_simp
  have p: "parse_log_line example_strptime 7 line_pam_session = Inr (Some event_pam_session)"
    by code_simp
  from n1 n2 n3 n4 n5
  have none: "\<forall>p\<in>set [EGRESS_1, BRUTE_1, BRUTE_2, BRUTE_3, SUDO_1]. search p ?body = None"
    by simp
  from C9_pam_session_user_key [OF sp none m, of example_strptime 7] p
  have "user_sudo_attempts (tally_events [event_pam_session]) = [(''opened'', 1)]"
    by auto
  with p m show ?thesis by (simp add: event_pam_session_def)
qed

theorem C9_counterexample:
  "py_split '' | '' 3 (py_strip line_sudo_and_pam) =
     [''2024-01-01 00:00:00'', ''vm1'', ''auth.log'', body_sudo_and_pam] \<and>
   search SUDO_2 body_sudo_and_pam = Some [Some ''opened'', Some ''root''] \<and>
   parse_log_line example_strptime 7 line_sudo_and_pam = Inr (Some event_sudo_and_pam) \<and>
   dict_get (metadata event_sudo_and_pam) ''user'' = Some ''bob'' \<and>
   parse_log_line example_strptime 7 line_pam_upper = Inr (Some event_pam_upper) \<and>
   dict_get (metadata event_pam_upper) ''user'' = Some ''OPENED''"
proof -
  have sp: "py_split '' | '' 3 (py_strip line_sudo_and_pam) =
     [''2024-01-01 00:00:00'', ''vm1'', ''auth.log'', body_sudo_and_pam]" by code_simp
  have m: "search SUDO_2 body_sudo_and_pam = Some [Some ''opened'', Some ''root'']"
    by code_simp
  have p: "parse_log_line example_strptime 7 line_sudo_and_pam = Inr (Some event_sudo_and_pam)"
    by code_simp
  have q: "parse_log_line example_strptime 7 line_pam_upper = Inr (Some event_pam_upper)"
    by code_simp
  from sp m p q show ?thesis
    by (simp add: event_sudo_and_pam_def event_pam_upper_def dict_get_def)
qed

subsection \<open>The unauthorized-sudo pattern of the brute-force rule\<close>

lemma greedy_head: "\<exists>rest. greedy k s = dropWhile (cls_match k) s # rest"
  by (induction s) auto

lemma concat_map_first:
  "concat (map f xs) = y # ys \<Longrightarrow> \<exists>x\<in>set xs. \<exists>zs. f x = y # zs"
proof (induction xs)
  case Nil
  then show ?case by simp
next
  case (Cons x xs)
  then show ?case by (cases "f x") auto
qed

lemma take_run:
  assumes "P x"
  shows "take (length (x # xs) - length (dropWhile P xs)) (x # xs) = takeWhile P (x # xs)"
proof -
  have "length (takeWhile P xs) + length (dropWhile P xs) = length xs"
    by (metis length_append takeWhile_dropWhile_id)
  then have "length (x # xs) - length (dropWhile P xs) = Suc (length (takeWhile P xs))"
    by simp
  moreover have "take (length (takeWhile P xs)) xs = takeWhile P xs"
    by (metis takeWhile_eq_take)
  ultimately show ?thesis using assms by simp
qed

lemma cat_last_plus_group:
  assumes "mt (cat (pre @ [Grp i (Plus k)])) (s, c) = (t, d) # rest"
  shows "\<exists>s1 c1. (s1, c1) \<in> set (mt (cat pre) (s, c)) \<and> takeWhile (cls_match k) s1 \<noteq> [] \<and>
           d = c1[i := Some (takeWhile (cls_match k) s1)]"
proof -
  from assms have "concat (map (mt (cat [Grp i (Plus k)])) (mt (cat pre) (s, c))) = (t, d) # rest"
    by (simp only: mt_cat_append)
  from concat_map_first [OF this] obtain st zs where st: "st \<in> set (mt (cat pre) (s, c))"
    and f: "mt (cat [Grp i (Plus k)]) st = (t, d) # zs"
    by blast
  obtain s1 c1 where st1: "st = (s1, c1)" by (cases st)
  from f st1 obtain x xs where s1: "s1 = x # xs" and x: "cls_match k x"
    by (cases s1) (auto simp: cat_Cons cat_Nil split: if_splits)
  obtain rest' where g: "greedy k xs = dropWhile (cls_match k) xs # rest'"
    using greedy_head by blast
  from f st1 s1 x g have "d = c1[i := Some (take (length (x # xs) - length (dropWhile (cls_match k) xs)) (x # xs))]"
    by (auto simp: cat_Cons cat_Nil)
  with x have "d = c1[i := Some (takeWhile (cls_match k) s1)]"
    unfolding s1 by (simp only: take_run)
  moreover from s1 x have "takeWhile (cls_match k) s1 \<noteq> []" by simp
  ultimately show ?thesis using st st1 by blast
qed

lemma BRUTE_3_shape:
  "BRUTE_3 = cat ((([lit ''sudo:'', Star AnyChar, lit ''user'', Plus Space, lit ''NOT'',
     Plus Space, lit ''in'', Plus Space, lit ''sudoers'', Star AnyChar, lit ''USER=''] @
     Grp 0 (Plus Word) # [Star AnyChar]) @ [lit ''COMMAND='']) @ [Grp 1 (Plus AnyChar)])"
  by (simp add: BRUTE_3_def)

lemma ngroups_BRUTE_3: "ngroups BRUTE_3 = 2"
  by (simp add: BRUTE_3_def ngroups_cat ngroups_lit)

lemma lower_command: "map lower_char ''COMMAND='' = ''command=''"
  by code_simp

lemma any_char: "cls_match AnyChar = (\<lambda>c. c \<noteq> CHR 0x0A)"
  by (rule ext) simp

lemma brute3_match_groups:
  assumes "search BRUTE_3 body = Some m"
  shows "\<exists>u cmd a kw s1. m = [Some u, Some cmd] \<and> body = a @ kw @ s1 \<and>
           py_lower kw = ''command='' \<and> cmd = takeWhile (\<lambda>c. c \<noteq> CHR 0x0A) s1 \<and> cmd \<noteq> []"
proof -
  let ?P0 = "[lit ''sudo:'', Star AnyChar, lit ''user'', Plus Space, lit ''NOT'',
     Plus Space, lit ''in'', Plus Space, lit ''sudoers'', Star AnyChar, lit ''USER='']"
  let ?init = "replicate 2 None :: caps"
  from search_position [OF assms] obtain pre s' where body: "body = pre @ s'"
    and "match_at BRUTE_3 s' = Some m" by blast
  from match_at_first [OF this(2)] obtain t rest where
    "mt BRUTE_3 (s', ?init) = (t, m) # rest"
    by (auto simp: ngroups_BRUTE_3)
  then have "mt (cat (((?P0 @ Grp 0 (Plus Word) # [Star AnyChar]) @ [lit ''COMMAND='']) @
      [Grp 1 (Plus AnyChar)])) (s', ?init) = (t, m) # rest"
    by (simp only: BRUTE_3_shape)
  from cat_last_plus_group [OF this] obtain s1 c1 where
    1: "(s1, c1) \<in> set (mt (cat ((?P0 @ Grp 0 (Plus Word) # [Star AnyChar]) @ [lit ''COMMAND=''])) (s', ?init))"
    and ne: "takeWhile (cls_match AnyChar) s1 \<noteq> []"
    and m: "m = c1[1 := Some (takeWhile (cls_match AnyChar) s1)]"
    by blast
  from 1 obtain st0 where
    2: "st0 \<in> set (mt (cat (?P0 @ Grp 0 (Plus Word) # [Star AnyChar])) (s', ?init))"
    and 3: "(s1, c1) \<in> set (mt (cat [lit ''COMMAND='']) st0)"
    unfolding mt_cat_append by auto
  obtain s0 c0 where st0: "st0 = (s0, c0)" by (cases st0)
  from 3 have "(s1, c1) \<in> set (mt (lit ''COMMAND='') (s0, c0))"
    unfolding st0 by (simp add: cat_Cons cat_Nil)
  from mt_lit [OF this] obtain kw where c1: "c1 = c0" and s0: "s0 = kw @ s1"
    and kw: "map lower_char kw = map lower_char ''COMMAND=''"
    by blast
  from 2 have 2: "(s0, c0) \<in> set (mt (cat (?P0 @ Grp 0 (Plus Word) # [Star AnyChar])) (s', ?init))"
    unfolding st0 .
  from mt_consumes [OF 2] obtain v where s': "s' = v @ s0" by blast
  from mt_length [OF 2] have len: "length c0 = 2" by simp
  have "\<exists>sa ca ta da u. (sa, ca) \<in> set (mt (cat ?P0) (s', ?init)) \<and> sa = u @ ta \<and>
      (ta, da) \<in> set (mt (Plus Word) (sa, ca)) \<and> c0 ! 0 = Some u \<and>
      (s0, c0) \<in> set (mt (cat [Star AnyChar]) (ta, da[0 := Some u]))"
    using 2 by (rule cat_group_captures) (simp_all add: grps_cat)
  then obtain u where u: "c0 ! 0 = Some u" by blast
  from len obtain x y where c0: "c0 = [x, y]"
    by (cases c0; cases "tl c0") auto
  let ?cmd = "takeWhile (\<lambda>c. c \<noteq> CHR 0x0A) s1"
  from m c1 c0 u have "m = [Some u, Some ?cmd]" by (simp add: any_char)
  moreover from body s' s0 have "body = (pre @ v) @ kw @ s1" by simp
  moreover from kw have "py_lower kw = ''command=''"
    unfolding lower_command by (simp add: py_lower_def)
  moreover from ne have "?cmd \<noteq> []" by (simp add: any_char)
  ultimately show ?thesis by blast
qed

lemma first_rule_sudoers:
  assumes "\<forall>p\<in>set [EGRESS_1, BRUTE_1, BRUTE_2]. search p body = None"
    and "search BRUTE_3 body = Some m"
  shows "first_rule patterns body = Some (BRUTE_FORCE, m)"
  using assms by (simp add: patterns_def)

lemma brute_tally_step:
  assumes "rule e = BRUTE_FORCE" "metadata e = [(''username'', Some u), (''source_ip'', Some cmd)]"
    "cmd \<noteq> []"
  shows "ip_failures (analyze_step st e) = bump cmd (ip_failures st)"
  using assms by (simp add: ip_failures_step dict_get_def)

text \<open>
  C10. When the unauthorized-sudo pattern is the first pattern of the
  registry that matches the body of a line (the egress pattern and the two SSH
  brute-force patterns do not match it), the event's metadata key \<open>source_ip\<close> holds
  the pattern's second group: the attempted command, that is the text that follows
  \<open>COMMAND=\<close> up to the end of the line, not an IP address. The threat analyzer counts
  that command string as an IP in its per-IP brute-force tally.
\<close>

theorem C10_sudoers_command_as_source_ip:
  assumes "py_split '' | '' 3 (py_strip line) = [ts, vm, src, body]"
    and "\<forall>p\<in>set [EGRESS_1, BRUTE_1, BRUTE_2]. search p body = None"
    and "search BRUTE_3 body = Some m"
  shows "\<exists>e u cmd. parse_log_line strptime now line = Inr (Some e) \<and> rule e = BRUTE_FORCE \<and>
           m = [Some u, Some cmd] \<and> cmd \<noteq> [] \<and>
           (\<exists>a kw s1. body = a @ kw @ s1 \<and> py_lower kw = ''command='' \<and>
              cmd = takeWhile (\<lambda>c. c \<noteq> CHR 0x0A) s1) \<and>
           metadata e = [(''username'', Some u), (''source_ip'', Some cmd)] \<and>
           (\<forall>st. ip_failures (analyze_step st e) = bump cmd (ip_failures st)) \<and>
           ip_failures (tally_events [e]) = [(cmd, 1)] \<and> ip_count [e] cmd = 1"
proof -
  from brute3_match_groups [OF assms(3)] obtain u cmd a kw s1 where
    m: "m = [Some u, Some cmd]" and body: "body = a @ kw @ s1" and
    kw: "py_lower kw = ''command=''" and cmd: "cmd = takeWhile (\<lambda>c. c \<noteq> CHR 0x0A) s1" and
    ne: "cmd \<noteq> []"
    by blast
  let ?e = "\<lparr>vm_name = vm, timestamp = (case strptime ts of Some t \<Rightarrow> t | None \<Rightarrow> now),
     source = src, message = py_strip line, severity = HIGH, rule = BRUTE_FORCE,
     metadata = extract_metadata BRUTE_FORCE m body\<rparr>"
  from first_rule_sudoers [OF assms(2,3)]
  have p: "parse_log_line strptime now line = Inr (Some ?e)"
    by (simp add: parse_log_line_split [OF assms(1)] get_severity_def)
  from m have md: "metadata ?e = [(''username'', Some u), (''source_ip'', Some cmd)]"
    by (simp add: extract_metadata_def)
  have r: "rule ?e = BRUTE_FORCE" by simp
  have step: "ip_failures (analyze_step st ?e) = bump cmd (ip_failures st)" for st
    using r md ne by (rule brute_tally_step)
  have t: "ip_failures (tally_events [?e]) = [(cmd, 1)]"
    unfolding tally_events_def using step [of tally0] by (simp add: tally0_def)
  from md ne have c: "ip_count [?e] cmd = 1"
    by (simp add: ip_count_def counts_as_brute_def dict_get_def)
  from body kw cmd have "\<exists>a kw s1. body = a @ kw @ s1 \<and> py_lower kw = ''command='' \<and>
      cmd = takeWhile (\<lambda>c. c \<noteq> CHR 0x0A) s1"
    by blast
  with p r m ne md step t c show ?thesis by blast
qed

theorem C10_witness:
  "parse_log_line example_strptime 7 line_not_in_sudoers = Inr (Some event_not_in_sudoers) \<and>
   dict_get (metadata event_not_in_sudoers) ''source_ip'' = Some ''/bin/cat /etc/shadow'' \<and>
   ip_failures (tally_events [event_not_in_sudoers]) = [(''/bin/cat /etc/shadow'', 1)]"
proof -
  let ?body = "''sudo: bob : user NOT in sudoers ; TTY=pts/0 ; USER=root ; COMMAND=/bin/cat /etc/shadow''"
  have sp: "py_split '' | '' 3 (py_strip line_not_in_sudoers) =
     [''2024-01-01 00:00:00'', ''vm1'', ''auth.log'', ?body]" by code_simp
  have n1: "search EGRESS_1 ?body = None" by code_simp
  have n2: "search BRUTE_1 ?body = None" by code_simp
  have n3: "search BRUTE_2 ?body = None" by code_simp
  have m: "search BRUTE_3 ?body = Some [Some ''root'', Some ''/bin/cat /etc/shadow'']"
    by code_simp
  have p: "parse_log_line example_strptime 7 line_not_in_sudoers = Inr (Some event_not_in_sudoers)"
    by code_simp
  from n1 n2 n3 have none: "\<forall>p\<in>set [EGRESS_1, BRUTE_1, BRUTE_2]. search p ?body = None"
    by simp
  from C10_sudoers_command_as_source_ip [OF sp none m, of example_strptime 7] p
  have "ip_failures (tally_events [event_not_in_sudoers]) = [(''/bin/cat /etc/shadow'', 1)]"
    by auto
  with p show ?thesis by (simp add: event_not_in_sudoers_def dict_get_def)
qed

theorem C10_counterexample:
  "py_split '' | '' 3 (py_strip line_ssh_and_sudoers) =
     [''2024-01-01 00:00:00'', ''vm1'', ''auth.log'', body_ssh_and_sudoers] \<and>
   search BRUTE_3 body_ssh_and_sudoers = Some [Some ''root'', Some ''/bin/ls''] \<and>
   parse_log_line example_strptime 7 line_ssh_and_sudoers = Inr (Some event_ssh_and_sudoers) \<and>
   dict_get (metadata event_ssh_and_sudoers) ''source_ip'' = Some ''10.0.0.5''"
proof -
  have sp: "py_split '' | '' 3 (py_strip line_ssh_and_sudoers) =
     [''2024-01-01 00:00:00'', ''vm1'', ''auth.log'', body_ssh_and_sudoers]" by code_simp
  have m: "search BRUTE_3 body_ssh_and_sudoers = Some [Some ''root'', Some ''/bin/ls'']"
    by code_simp
  have p: "parse_log_line example_strptime 7 line_ssh_and_sudoers = Inr (Some event_ssh_and_sudoers)"
    by code_simp
  from sp m p show ?thesis by (simp add: event_ssh_and_sudoers_def dict_get_def)
qed

end
